theory Spec2Isabelle
  imports Main "HOL-Library.AList" "HOL-Library.Sublist"
begin

section \<open>JavaScript values, objects and the object heap\<close>

text \<open>
  The theme handed to \<open>flattenObject\<close> is an arbitrary JavaScript value (\<open>obj: any\<close>).
  The model covers the values a theme is built from: scalars, \<open>null\<close>, \<open>undefined\<close>,
  functions, arrays and plain objects, that is, objects whose properties are own,
  enumerable, writable data properties with string keys and whose prototype is
  \<open>Object.prototype\<close> (object literals and the objects \<open>JSON.parse\<close> builds). Objects with
  accessors, proxies, frozen objects and objects with another prototype are outside the
  model.

  Objects are reference values, so an object may contain itself; the model keeps them in
  a heap: an object is an address, and the heap gives, for each address, the object's own
  properties in the order in which \<open>for (const key in obj)\<close> visits them.

  Numbers are only copied and printed by the code, never computed with; they are modelled
  as integers. A function value carries its \<open>length\<close> (its declared arity); it has no
  enumerable properties of its own. An array is the list of its elements.
\<close>

type_synonym addr = nat

datatype jsval =
    JUndefined
  | JNull
  | JBool bool
  | JNum int
  | JStr string
  | JArr "jsval list"
  | JFun nat
  | JObj addr

datatype jstype = TyUndefined | TyObject | TyBoolean | TyNumber | TyString | TyFunction

text \<open>The \<open>typeof\<close> operator; \<open>typeof null\<close> and \<open>typeof []\<close> are both \<open>'object'\<close>.\<close>

fun typeof :: "jsval \<Rightarrow> jstype" where
  "typeof JUndefined = TyUndefined"
| "typeof JNull = TyObject"
| "typeof (JBool b) = TyBoolean"
| "typeof (JNum n) = TyNumber"
| "typeof (JStr s) = TyString"
| "typeof (JArr xs) = TyObject"
| "typeof (JFun n) = TyFunction"
| "typeof (JObj a) = TyObject"

fun isArray :: "jsval \<Rightarrow> bool" where
  "isArray (JArr xs) = True"
| "isArray v = False"

type_synonym props = "(string \<times> jsval) list"

type_synonym heap = "props list"

text \<open>The own enumerable properties of the object at an address.\<close>

definition own_props :: "heap \<Rightarrow> addr \<Rightarrow> props" where
  "own_props h a = (if a < length h then h ! a else [])"

text \<open>
  \<open>Object.keys(v)\<close> for the values on which the code evaluates it. The conjunction in
  \<open>flattenObject\<close> short-circuits, so \<open>Object.keys\<close> is only reached for a non-null,
  non-array value of type \<open>'object'\<close>, that is, for a plain object.
\<close>

fun object_keys :: "heap \<Rightarrow> jsval \<Rightarrow> string list" where
  "object_keys h (JObj a) = map fst (own_props h a)"
| "object_keys h v = []"

text \<open>
  \<open>String(n)\<close> for an integer-valued number: its decimal digits, after a sign if negative
  (the form JavaScript prints for integers of absolute value below \<open>10^21\<close>).
\<close>

definition decimal_digit :: "nat \<Rightarrow> char" where
  "decimal_digit d = ''0123456789'' ! d"

function nat_to_string :: "nat \<Rightarrow> string" where
  "nat_to_string n =
     (if 10 \<le> n then nat_to_string (n div 10) else []) @ [decimal_digit (n mod 10)]"
  by pat_completeness auto
termination
  by (relation "measure id") auto

declare nat_to_string.simps [simp del]

definition int_to_string :: "int \<Rightarrow> string" where
  "int_to_string i =
     (if 0 \<le> i then nat_to_string (nat i) else CHR ''-'' # nat_to_string (nat (- i)))"

text \<open>
  The properties \<open>for (const key in obj)\<close> visits, each with the value \<open>obj[key]\<close>: the
  own properties of a plain object, the indices of an array with its elements, the
  indices of a string with its characters, and nothing for any other value.
\<close>

definition index_keys :: "nat \<Rightarrow> string list" where
  "index_keys n = map nat_to_string [0..<n]"

fun enumerate_props :: "heap \<Rightarrow> jsval \<Rightarrow> props" where
  "enumerate_props h (JObj a) = own_props h a"
| "enumerate_props h (JArr xs) = zip (index_keys (length xs)) xs"
| "enumerate_props h (JStr s) = zip (index_keys (length s)) (map (\<lambda>c. JStr [c]) s)"
| "enumerate_props h v = []"

fun fun_length :: "jsval \<Rightarrow> nat" where
  "fun_length (JFun n) = n"
| "fun_length v = 0"

section \<open>The flattened theme table\<close>

text \<open>
  \<open>FlattenedTheme\<close> is a JavaScript object used as a dictionary. It is modelled as the
  list of its own properties in the order in which \<open>for (const k in themeData)\<close>
  enumerates them: the keys that are array indices first, in ascending numeric order,
  then the other keys in the order in which they were created.
\<close>

type_synonym table = "(string \<times> jsval) list"

text \<open>
  \<open>themeData.hasOwnProperty(k)\<close>, for a table whose \<open>hasOwnProperty\<close> is the method
  inherited from \<open>Object.prototype\<close>: membership among the keys. (On a table that has an
  own key named \<open>hasOwnProperty\<close> the call fails with a \<open>TypeError\<close>, the value under
  that key not being a function.)
\<close>

definition hasOwnProperty :: "table \<Rightarrow> string \<Rightarrow> bool" where
  "hasOwnProperty t k = (k \<in> set (map fst t))"

text \<open>
  An array index is the canonical decimal numeral of an integer below \<open>2^32 - 1\<close>.
\<close>

definition is_digit :: "char \<Rightarrow> bool" where
  "is_digit c = (48 \<le> (of_char c :: nat) \<and> (of_char c :: nat) \<le> 57)"

definition index_value :: "string \<Rightarrow> int" where
  "index_value k = foldl (\<lambda>n c. 10 * n + (of_char c - 48)) 0 k"

definition is_array_index :: "string \<Rightarrow> bool" where
  "is_array_index k =
     (k \<noteq> [] \<and> list_all is_digit k \<and> (k = ''0'' \<or> hd k \<noteq> CHR ''0'')
      \<and> index_value k < 4294967295)"

text \<open>
  Creating or overwriting an own property. An existing key keeps its place; a new array
  index goes before the first key that is not a smaller array index; any other new key
  goes to the end.
\<close>

fun insert_index :: "string \<Rightarrow> jsval \<Rightarrow> table \<Rightarrow> table" where
  "insert_index k v [] = [(k, v)]"
| "insert_index k v (e # es) =
     (if is_array_index (fst e) \<and> index_value (fst e) < index_value k
      then e # insert_index k v es
      else (k, v) # e # es)"

definition define_property :: "table \<Rightarrow> string \<Rightarrow> jsval \<Rightarrow> table" where
  "define_property t k v =
     (if k \<in> set (map fst t) then AList.update k v t
      else if is_array_index k then insert_index k v t
      else t @ [(k, v)])"

text \<open>
  The assignment \<open>result[k] = v\<close>. For the key \<open>__proto__\<close> on an object without an own
  property of that name, the assignment reaches the setter inherited from
  \<open>Object.prototype\<close> and creates no property.
\<close>

definition js_assign :: "table \<Rightarrow> string \<Rightarrow> jsval \<Rightarrow> table" where
  "js_assign t k v =
     (if k = ''__proto__'' \<and> k \<notin> set (map fst t) then t else define_property t k v)"

text \<open>
  The table \<open>JSON.parse\<close> builds from the members of a JSON object, in the order of the
  text: every member creates or overwrites an own property (also the member
  \<open>__proto__\<close>). The table of the providers is built this way: \<open>getThemeData\<close> returns
  \<open>JSON.parse(fileContent)\<close> of the theme file.
\<close>

definition json_object :: "(string \<times> jsval) list \<Rightarrow> table" where
  "json_object members = foldl (\<lambda>t (k, v). define_property t k v) [] members"

text \<open>
  What the enumeration order of an object is specified to be: no key that is an array
  index comes after a key that is not one or after an array index of greater value.
\<close>

definition enumeration_order :: "string list \<Rightarrow> bool" where
  "enumeration_order ks =
     sorted_wrt (\<lambda>a b. is_array_index b \<longrightarrow> is_array_index a \<and> index_value a \<le> index_value b) ks"

section \<open>flattenObject (scripts/gen-theme-json.ts)\<close>

text \<open>\<open>const newKey = parentKey ? `${parentKey}.${key}` : key\<close>; the empty string is falsy.\<close>

definition newKey :: "string \<Rightarrow> string \<Rightarrow> string" where
  "newKey parentKey key = (if parentKey \<noteq> [] then parentKey @ ''.'' @ key else key)"

text \<open>\<open>`function(${obj[key].length > 0 ? 'factor' : ''}) => string | number`\<close>\<close>

definition spacing_repr :: "jsval \<Rightarrow> jsval" where
  "spacing_repr v =
     JStr (''function('' @ (if 0 < fun_length v then ''factor'' else []) @ '') => string | number'')"

text \<open>
  The call \<open>obj.hasOwnProperty(key)\<close>. A plain object without an own property named
  \<open>hasOwnProperty\<close>, an array and a string inherit the method, which answers \<open>true\<close> for
  every key the loop visits. An own property of that name shadows the method: when its
  value is not a function the call fails with a \<open>TypeError\<close>; when it is a function of
  the theme, that function is called. Its body is not part of the program: the model
  takes, as the parameter \<open>call\<close>, whether such a call returns a truthy value
  (\<open>Some True\<close>), a falsy one (\<open>Some False\<close>) or throws (\<open>None\<close>), and takes the call to
  have no other effect.
\<close>

datatype js_error = TypeError | Thrown

type_synonym theme_call = "jsval \<Rightarrow> string \<Rightarrow> bool option"

definition hasOwnProperty_call :: "theme_call \<Rightarrow> heap \<Rightarrow> jsval \<Rightarrow> string \<Rightarrow> js_error + bool" where
  "hasOwnProperty_call call h obj key =
     (case obj of
        JObj a \<Rightarrow>
          (case map_of (own_props h a) ''hasOwnProperty'' of
             None \<Rightarrow> Inr True
           | Some f \<Rightarrow>
               if typeof f = TyFunction
               then (case call f key of None \<Rightarrow> Inl Thrown | Some b \<Rightarrow> Inr b)
               else Inl TypeError)
      | _ \<Rightarrow> Inr True)"

text \<open>
  The body of the \<open>for ... in\<close> loop, for the property \<open>key\<close> with the value
  \<open>v = obj[key]\<close>: it ends with an error of the call \<open>obj.hasOwnProperty(key)\<close>, does
  nothing, executes one assignment \<open>result[k] = w\<close>, or calls
  \<open>flattenObject(v, newKey, result)\<close>.
\<close>

datatype loop_step = Throw js_error | Skip | Assign string jsval | Recurse jsval string

definition property_step ::
  "theme_call \<Rightarrow> heap \<Rightarrow> jsval \<Rightarrow> string \<Rightarrow> string \<Rightarrow> jsval \<Rightarrow> loop_step"
where
  "property_step call h obj parentKey key v =
     (case hasOwnProperty_call call h obj key of
        Inl e \<Rightarrow> Throw e
      | Inr own \<Rightarrow>
          if own then
            (let nk = newKey parentKey key in
             if typeof v = TyObject \<and> v \<noteq> JNull \<and> \<not> isArray v
                \<and> 0 < length (object_keys h v) then
               (if typeof v \<noteq> TyFunction then Recurse v nk
                else if key = ''spacing'' then Assign nk (spacing_repr v)
                else Skip)
             else if typeof v \<noteq> TyFunction then Assign nk v
             else if key = ''spacing'' then Assign nk (spacing_repr v)
             else Skip)
          else Skip)"

text \<open>
  The loop may call \<open>flattenObject\<close> again on a property value, and nothing bounds the
  depth of that recursion. The loop and the recursion are one function here: its
  arguments are the object \<open>obj\<close>, the list of its properties the loop has still to visit,
  \<open>parentKey\<close> and \<open>result\<close>. The recursive call runs the loop on the properties of
  \<open>obj[key]\<close> before the remaining properties of \<open>obj\<close>. The accumulator \<open>result\<close>, which
  the source mutates in place, is passed along.

  The result \<open>None\<close> stands for a call that never returns, \<open>Some (Inl e)\<close> for a call that
  ends with the error \<open>e\<close>, and \<open>Some (Inr t)\<close> for a call that returns with \<open>result\<close>
  holding the table \<open>t\<close>.
\<close>

partial_function (option) flattenObject_loop ::
  "theme_call \<Rightarrow> heap \<Rightarrow> jsval \<Rightarrow> props \<Rightarrow> string \<Rightarrow> table \<Rightarrow> (js_error + table) option"
where
  "flattenObject_loop call h obj ps parentKey result =
     (case ps of
        [] \<Rightarrow> Some (Inr result)
      | p # rest \<Rightarrow>
          (case property_step call h obj parentKey (fst p) (snd p) of
             Throw e \<Rightarrow> Some (Inl e)
           | Skip \<Rightarrow> flattenObject_loop call h obj rest parentKey result
           | Assign k w \<Rightarrow> flattenObject_loop call h obj rest parentKey (js_assign result k w)
           | Recurse v nk \<Rightarrow>
               Option.bind (flattenObject_loop call h v (enumerate_props h v) nk result)
                 (\<lambda>r. case r of
                        Inl e \<Rightarrow> Some (Inl e)
                      | Inr result' \<Rightarrow> flattenObject_loop call h obj rest parentKey result')))"

declare flattenObject_loop.simps [code]

text \<open>
  \<open>flattenObject(obj, parentKey = '', result = {})\<close>: the call as the script makes it,
  \<open>flattenObject(muiThemeObject)\<close>, is \<open>flattenObject call h root [] []\<close>.
\<close>

definition flattenObject ::
  "theme_call \<Rightarrow> heap \<Rightarrow> jsval \<Rightarrow> string \<Rightarrow> table \<Rightarrow> (js_error + table) option"
where
  "flattenObject call h obj parentKey result =
     flattenObject_loop call h obj (enumerate_props h obj) parentKey result"

text \<open>No object of the heap has an own property named \<open>hasOwnProperty\<close>.\<close>

definition no_shadow :: "heap \<Rightarrow> bool" where
  "no_shadow h = list_all (\<lambda>ps. map_of ps ''hasOwnProperty'' = None) h"

text \<open>A function of the theme that answers \<open>true\<close> to every call.\<close>

definition answers_true :: theme_call where
  "answers_true = (\<lambda>f key. Some True)"

subsection \<open>Cycles in the input\<close>

text \<open>
  The objects \<open>flattenObject\<close> recurses into from a property list: the object-valued
  properties that have at least one key. \<open>child_rel\<close> relates such a child to the object
  that holds it, and an input is cyclic when the traversal reaches an object that is
  reachable from itself along these edges.
\<close>

definition composite_children :: "heap \<Rightarrow> props \<Rightarrow> addr set" where
  "composite_children h ps = {b. (\<exists>k. (k, JObj b) \<in> set ps) \<and> own_props h b \<noteq> []}"

definition child_rel :: "heap \<Rightarrow> (addr \<times> addr) set" where
  "child_rel h = {(b, a). b \<in> composite_children h (own_props h a)}"

definition cyclic_from :: "heap \<Rightarrow> props \<Rightarrow> bool" where
  "cyclic_from h ps =
     (\<exists>b c. b \<in> composite_children h ps \<and> (c, b) \<in> (child_rel h)\<^sup>* \<and> (c, c) \<in> (child_rel h)\<^sup>+)"

subsection \<open>The properties of a tree and their dotted paths\<close>


text \<open>
  The dotted path of a chain of keys below a prefix: the keys joined with dots, an empty
  prefix being left out.
\<close>

fun dotted_path :: "string \<Rightarrow> string list \<Rightarrow> string" where
  "dotted_path pre [] = pre"
| "dotted_path pre (key # chain) =
     dotted_path (if pre = [] then key else pre @ ''.'' @ key) chain"




subsection \<open>Example inputs\<close>

text \<open>\<open>const t = {}; t.self = t;\<close>\<close>

definition cyclic_theme :: heap where
  "cyclic_theme = [[(''self'', JObj 0)]]"

text \<open>\<open>{ palette: { main: '#1976d2' }, customProperty: 'customValue' }\<close>\<close>

definition small_theme :: heap where
  "small_theme =
     [[(''palette'', JObj 1), (''customProperty'', JStr ''customValue'')],
      [(''main'', JStr ''#1976d2'')]]"




section \<open>JavaScript strings\<close>

text \<open>
  Texts are lists of characters; a character of the model is one code unit below 256.
  \<open>s.startsWith(p)\<close>, \<open>s.endsWith(p)\<close>, \<open>s.includes(p)\<close>, \<open>s.substring(a, b)\<close> (which
  clamps its arguments to the length and swaps them when \<open>a > b\<close>), \<open>s.split('.')\<close> and
  \<open>s.lastIndexOf('.')\<close> (\<open>None\<close> for \<open>-1\<close>).
\<close>

definition startsWith :: "string \<Rightarrow> string \<Rightarrow> bool" where
  "startsWith s p = prefix p s"

definition endsWith :: "string \<Rightarrow> string \<Rightarrow> bool" where
  "endsWith s p = suffix p s"

definition js_includes :: "string \<Rightarrow> string \<Rightarrow> bool" where
  "js_includes s p = sublist p s"

definition substring :: "string \<Rightarrow> nat \<Rightarrow> nat \<Rightarrow> string" where
  "substring s a b =
     (let a' = min a (length s); b' = min b (length s)
      in take (max a' b' - min a' b') (drop (min a' b') s))"

fun js_split :: "char \<Rightarrow> string \<Rightarrow> string list" where
  "js_split sep [] = [[]]"
| "js_split sep (c # cs) =
     (if c = sep then [] # js_split sep cs
      else (case js_split sep cs of [] \<Rightarrow> [[c]] | seg # segs \<Rightarrow> (c # seg) # segs))"

definition lastIndexOf :: "string \<Rightarrow> char \<Rightarrow> nat option" where
  "lastIndexOf s c =
     (if c \<in> set s then Some (length s - 1 - length (takeWhile (\<lambda>x. x \<noteq> c) (rev s))) else None)"

text \<open>Reading an array element: \<open>None\<close> is \<open>undefined\<close>, the value of an index out of range.\<close>

definition array_get :: "'a list \<Rightarrow> nat \<Rightarrow> 'a option" where
  "array_get xs i = (if i < length xs then Some (xs ! i) else None)"

text \<open>Truthiness of a value, as \<open>if (v)\<close> and \<open>a || b\<close> test it.\<close>

fun truthy :: "jsval \<Rightarrow> bool" where
  "truthy JUndefined = False"
| "truthy JNull = False"
| "truthy (JBool b) = b"
| "truthy (JNum n) = (n \<noteq> 0)"
| "truthy (JStr s) = (s \<noteq> [])"
| "truthy v = True"

section \<open>Reading the theme table (loadTheme.ts)\<close>

text \<open>
  \<open>getThemeData()\<close> returns the cached table or \<open>null\<close>; the providers receive its result
  as an argument of type \<open>table option\<close>.

  \<open>themeData[k]\<close> reads an own property or, failing that, a member that every object
  inherits from \<open>Object.prototype\<close>; the inherited members are all functions or objects,
  hence truthy and not scalar.
\<close>

definition object_prototype_members :: "string list" where
  "object_prototype_members =
     [''constructor'', ''hasOwnProperty'', ''isPrototypeOf'', ''propertyIsEnumerable'',
      ''toLocaleString'', ''toString'', ''valueOf'', ''__proto__'',
      ''__defineGetter__'', ''__defineSetter__'', ''__lookupGetter__'', ''__lookupSetter__'']"

definition inherited_member :: "string \<Rightarrow> bool" where
  "inherited_member k = (k \<in> set object_prototype_members)"

definition lookup_truthy :: "table \<Rightarrow> string \<Rightarrow> bool" where
  "lookup_truthy t k = (case map_of t k of Some v \<Rightarrow> truthy v | None \<Rightarrow> inherited_member k)"

definition is_scalar :: "jsval \<Rightarrow> bool" where
  "is_scalar v = (typeof v = TyString \<or> typeof v = TyNumber \<or> typeof v = TyBoolean)"

section \<open>The completion provider (providers/completions.ts)\<close>

text \<open>
  The repository holds two variants of this provider; the model follows the later one,
  whose pattern is \<open>THEME_ACCESS_PATTERN\<close>.

  \<open>provideCompletionItems\<close> first runs \<open>THEME_ACCESS_PATTERN.exec(textBeforeCursor)\<close>. The
  regular-expression engine is not part of the program; the provider is modelled from the
  result of that call on: \<open>None\<close> when the pattern does not match, otherwise the text of
  capture group 1, the path typed so far.
\<close>

datatype item_kind = KindProperty | KindModule | KindValue

text \<open>
  The three shapes of \<open>item.documentation\<close>:
  \<open>Value: `v`  Full path: `p`\<close>, \<open>Full path: `p` (Object)\<close> and \<open>Path: `p`\<close>.
\<close>

datatype item_doc = DocValue jsval string | DocObject string | DocPath string

text \<open>\<open>retrigger\<close> records that \<open>item.command\<close> is \<open>editor.action.triggerSuggest\<close>.\<close>

record completion_item =
  label :: string
  insertText :: string
  filterText :: string
  kind :: item_kind
  retrigger :: bool
  detail :: string
  documentation :: item_doc

text \<open>
  The segment to suggest for one table key. \<open>None\<close> covers both the \<open>continue\<close> of the
  source's else branch and an \<open>undefined\<close> array element.
\<close>

definition suggestionSegment :: "string \<Rightarrow> string \<Rightarrow> string option" where
  "suggestionSegment typedPath fullThemePath =
     (let remainingPath = drop (length typedPath) fullThemePath in
      if endsWith typedPath ''.'' then array_get (js_split CHR ''.'' remainingPath) 0
      else
        (let typedSegments = js_split CHR ''.'' typedPath;
             fullPathSegments = js_split CHR ''.'' fullThemePath
         in if 0 < length typedSegments \<and> length typedSegments \<le> length fullPathSegments
            then array_get fullPathSegments (length typedSegments - 1)
            else None))"

definition potentialFullThemePath :: "string \<Rightarrow> string \<Rightarrow> string" where
  "potentialFullThemePath typedPath suggestion =
     (if endsWith typedPath ''.'' then typedPath @ suggestion
      else (case lastIndexOf typedPath CHR ''.'' of
              None \<Rightarrow> suggestion
            | Some lastDotIndex \<Rightarrow> substring typedPath 0 (lastDotIndex + 1) @ suggestion))"

definition hasChildren :: "table \<Rightarrow> string \<Rightarrow> bool" where
  "hasChildren themeData potential =
     list_ex (\<lambda>p. startsWith p (potential @ ''.'') \<and> p \<noteq> potential) (map fst themeData)"

definition formsValidPrefix :: "table \<Rightarrow> string \<Rightarrow> bool" where
  "formsValidPrefix themeData potential =
     list_ex (\<lambda>p. startsWith p potential) (map fst themeData)"

definition item_documentation :: "table \<Rightarrow> string \<Rightarrow> item_doc" where
  "item_documentation themeData potential =
     (case map_of themeData potential of
        Some displayValue \<Rightarrow>
          (if displayValue \<noteq> JUndefined then
             (if is_scalar displayValue then DocValue displayValue potential
              else DocObject potential)
           else DocPath potential)
      | None \<Rightarrow> (if inherited_member potential then DocObject potential else DocPath potential))"

definition make_item :: "table \<Rightarrow> string \<Rightarrow> string \<Rightarrow> bool \<Rightarrow> completion_item" where
  "make_item themeData suggestion potential children =
     \<lparr> label = suggestion,
       insertText = (if children then suggestion @ ''.'' else suggestion),
       filterText = suggestion,
       kind = (if children then KindModule else KindValue),
       retrigger = children,
       detail = ''Theme: '' @ potential,
       documentation = item_documentation themeData potential \<rparr>"

text \<open>
  The loop \<open>for (const fullThemePath in themeData)\<close>, over the keys still to visit, with the
  set \<open>uniqueSuggestions\<close> and the array \<open>completions\<close> built so far.
\<close>

fun completion_loop ::
  "table \<Rightarrow> string \<Rightarrow> string list \<Rightarrow> string set \<Rightarrow> completion_item list \<Rightarrow> completion_item list"
where
  "completion_loop themeData typedPath [] uniqueSuggestions completions = completions"
| "completion_loop themeData typedPath (fullThemePath # keys) uniqueSuggestions completions =
     (if startsWith fullThemePath typedPath then
        (case suggestionSegment typedPath fullThemePath of
           None \<Rightarrow> completion_loop themeData typedPath keys uniqueSuggestions completions
         | Some suggestion \<Rightarrow>
             if suggestion = [] \<or> suggestion \<in> uniqueSuggestions then
               completion_loop themeData typedPath keys uniqueSuggestions completions
             else
               (let potential = potentialFullThemePath typedPath suggestion;
                    children = hasChildren themeData potential
                in if \<not> hasOwnProperty themeData potential \<and> \<not> children
                      \<and> \<not> formsValidPrefix themeData potential
                   then completion_loop themeData typedPath keys
                          (insert suggestion uniqueSuggestions) completions
                   else completion_loop themeData typedPath keys
                          (insert suggestion uniqueSuggestions)
                          (completions @ [make_item themeData suggestion potential children])))
      else completion_loop themeData typedPath keys uniqueSuggestions completions)"

text \<open>The part of the provider after the pattern has matched and the table has been read.\<close>

definition complete :: "string \<Rightarrow> table \<Rightarrow> completion_item list" where
  "complete typedPath themeData = completion_loop themeData typedPath (map fst themeData) {} []"

text \<open>The result \<open>None\<close> is \<open>null\<close>.\<close>

definition provideCompletionItems ::
  "string option \<Rightarrow> table option \<Rightarrow> completion_item list option"
where
  "provideCompletionItems themeAccessMatch themeData =
     (case themeAccessMatch of
        None \<Rightarrow> None
      | Some typedPath \<Rightarrow>
          (case themeData of
             None \<Rightarrow> None
           | Some t \<Rightarrow> Some (complete typedPath t)))"

subsection \<open>The node boundary of a typed path and the order of first occurrence\<close>

text \<open>
  The typed path cut back to its last dot (the empty path when it has none), the partial
  segment typed after that dot, and the segment of a table key that follows the node
  boundary of the typed path.
\<close>

definition node_boundary :: "string \<Rightarrow> string" where
  "node_boundary typedPath = rev (dropWhile (\<lambda>c. c \<noteq> CHR ''.'') (rev typedPath))"

definition partial_segment :: "string \<Rightarrow> string" where
  "partial_segment typedPath = rev (takeWhile (\<lambda>c. c \<noteq> CHR ''.'') (rev typedPath))"

definition next_segment :: "string \<Rightarrow> string \<Rightarrow> string" where
  "next_segment typedPath key =
     takeWhile (\<lambda>c. c \<noteq> CHR ''.'') (drop (length (node_boundary typedPath)) key)"

text \<open>A list without its repetitions: every element stays at the place of its first occurrence.\<close>

fun first_seen :: "'a list \<Rightarrow> 'a list" where
  "first_seen [] = []"
| "first_seen (x # xs) = x # first_seen (removeAll x xs)"

text \<open>The table keys that match a typed path, in the order of the table.\<close>

definition matching_keys :: "string \<Rightarrow> table \<Rightarrow> string list" where
  "matching_keys typedPath themeData = filter (\<lambda>k. startsWith k typedPath) (map fst themeData)"

text \<open>The item the loop builds for a segment it suggests.\<close>

definition item_for :: "table \<Rightarrow> string \<Rightarrow> string \<Rightarrow> completion_item" where
  "item_for themeData typedPath suggestion =
     make_item themeData suggestion (node_boundary typedPath @ suggestion)
       (hasChildren themeData (node_boundary typedPath @ suggestion))"

section \<open>The inlay-hint provider (providers/inlays.ts)\<close>

text \<open>
  The loop \<open>while ((match = THEME_PATH_DETECTION_REGEX.exec(text)) !== null)\<close> visits the
  successive matches of the pattern in \<open>text = document.getText(range)\<close>. Every match
  consumes at least the seven characters of \<open>theme.x\<close>, so there are finitely many; the
  provider is modelled from their list on. A match has its index, its text and its three
  capture groups, \<open>None\<close> for a group that did not take part.
\<close>

record regex_match =
  match_index :: nat
  match_text :: string
  group1 :: "string option"
  group2 :: "string option"
  group3 :: "string option"

text \<open>\<open>a || b\<close> on optional strings: \<open>undefined\<close> and the empty string are falsy.\<close>

definition js_or :: "string option \<Rightarrow> string option \<Rightarrow> string option" where
  "js_or a b = (case a of Some s \<Rightarrow> (if s \<noteq> [] then a else b) | None \<Rightarrow> b)"

text \<open>
  A hint: the document offset it is placed at (the argument of \<open>document.positionAt\<close>),
  its label and the text of its tooltip. Its kind is always \<open>Parameter\<close>.
\<close>

record inlay_hint =
  hint_offset :: nat
  hint_label :: string
  hint_tooltip :: string

text \<open>
  \<open>displayValue\<close>: a string cut to 17 characters and an ellipsis when it is longer than 20,
  \<open>String(value)\<close> for a number or a boolean, and \<open>None\<close> where the source takes
  \<open>continue\<close>.
\<close>

definition to_string :: "jsval \<Rightarrow> string" where
  "to_string v =
     (case v of JStr s \<Rightarrow> s | JNum n \<Rightarrow> int_to_string n
      | JBool b \<Rightarrow> (if b then ''true'' else ''false'') | _ \<Rightarrow> [])"

definition displayValue :: "jsval \<Rightarrow> string option" where
  "displayValue v =
     (if typeof v = TyString then
        Some (if 20 < length (to_string v) then substring (to_string v) 0 17 @ ''...''
              else to_string v)
      else if typeof v = TyNumber \<or> typeof v = TyBoolean then Some (to_string v)
      else None)"

text \<open>
  The cancellation token is read once at the start of every iteration. The model takes the
  token as the sequence of values these reads return: \<open>token i\<close> is what
  \<open>token.isCancellationRequested\<close> yields at the \<open>i\<close>-th iteration.
\<close>

type_synonym cancel_token = "nat \<Rightarrow> bool"

fun inlay_loop ::
  "table \<Rightarrow> nat \<Rightarrow> cancel_token \<Rightarrow> nat \<Rightarrow> regex_match list \<Rightarrow> inlay_hint list \<Rightarrow> inlay_hint list"
where
  "inlay_loop themeData offset token i [] hints = hints"
| "inlay_loop themeData offset token i (m # ms) hints =
     (if token i then []
      else
        (case js_or (js_or (group1 m) (group2 m)) (group3 m) of
           None \<Rightarrow> inlay_loop themeData offset token (Suc i) ms hints
         | Some themeKeyPath \<Rightarrow>
             if themeKeyPath \<noteq> [] \<and> hasOwnProperty themeData themeKeyPath then
               (case map_of themeData themeKeyPath of
                  None \<Rightarrow> inlay_loop themeData offset token (Suc i) ms hints
                | Some v \<Rightarrow>
                    (case displayValue v of
                       None \<Rightarrow> inlay_loop themeData offset token (Suc i) ms hints
                     | Some shown \<Rightarrow>
                         inlay_loop themeData offset token (Suc i) ms
                           (hints @
                            [\<lparr> hint_offset = offset + match_index m + length (match_text m),
                                hint_label = ''= '' @ shown,
                                hint_tooltip =
                                  ''Theme: `'' @ themeKeyPath @ '': '' @ to_string v @ ''`'' \<rparr>])))
             else inlay_loop themeData offset token (Suc i) ms hints))"

text \<open>
  \<open>provideInlayHints\<close>, from the table read by \<open>getThemeData()\<close>, the offset of the start
  of the range, the matches in the text of the range, and the token.
\<close>

definition provideInlayHints ::
  "table option \<Rightarrow> nat \<Rightarrow> regex_match list \<Rightarrow> cancel_token \<Rightarrow> inlay_hint list"
where
  "provideInlayHints themeData offset matches token =
     (case themeData of
        None \<Rightarrow> []
      | Some t \<Rightarrow> inlay_loop t offset token 0 matches [])"

text \<open>A token that is never cancelled.\<close>

definition never_cancelled :: cancel_token where
  "never_cancelled = (\<lambda>i. False)"

text \<open>
  The hints the loop has pushed when it meets the cancellation: those of the uncancelled
  scan over the matches that precede the first iteration at which the token reads
  \<open>true\<close>. This is what the specification calls the partial results produced so far.
\<close>

definition first_cancelled :: "cancel_token \<Rightarrow> nat \<Rightarrow> nat" where
  "first_cancelled token n = length (takeWhile (\<lambda>i. \<not> token i) [0..<n])"

definition results_so_far ::
  "table option \<Rightarrow> nat \<Rightarrow> regex_match list \<Rightarrow> cancel_token \<Rightarrow> inlay_hint list"
where
  "results_so_far themeData offset matches token =
     provideInlayHints themeData offset
       (take (first_cancelled token (length matches)) matches) never_cancelled"

section \<open>The hover provider (providers/hover.ts)\<close>

subsection \<open>Character classes and the patterns of the provider\<close>

text \<open>\<open>\w\<close> is \<open>[A-Za-z0-9_]\<close>; \<open>\s\<close> is the white space below code 256.\<close>

definition is_word_char :: "char \<Rightarrow> bool" where
  "is_word_char c =
     (let n = (of_char c :: nat)
      in (48 \<le> n \<and> n \<le> 57) \<or> (65 \<le> n \<and> n \<le> 90) \<or> (97 \<le> n \<and> n \<le> 122) \<or> n = 95)"

definition is_space_char :: "char \<Rightarrow> bool" where
  "is_space_char c = ((of_char c :: nat) \<in> {9, 10, 11, 12, 13, 32, 160})"

text \<open>\<open>[\w.]\<close> and \<open>[\w$.]\<close>\<close>

definition word_or_dot :: "char \<Rightarrow> bool" where
  "word_or_dot c = (is_word_char c \<or> c = CHR ''.'')"

definition word_dollar_or_dot :: "char \<Rightarrow> bool" where
  "word_dollar_or_dot c = (is_word_char c \<or> c = CHR ''$'' \<or> c = CHR ''.'')"

text \<open>
  The successive matches of a global pattern \<open>/[C]+/g\<close> over a text, as pairs of start
  index and matched text: the maximal runs of characters of the class \<open>C\<close>.
\<close>

fun class_runs_from :: "(char \<Rightarrow> bool) \<Rightarrow> nat \<Rightarrow> string \<Rightarrow> string \<Rightarrow> (nat \<times> string) list" where
  "class_runs_from C i run [] = (if run = [] then [] else [(i - length run, run)])"
| "class_runs_from C i run (c # cs) =
     (if C c then class_runs_from C (Suc i) (run @ [c]) cs
      else (if run = [] then [] else [(i - length run, run)]) @ class_runs_from C (Suc i) [] cs)"

definition class_runs :: "(char \<Rightarrow> bool) \<Rightarrow> string \<Rightarrow> (nat \<times> string) list" where
  "class_runs C s = class_runs_from C 0 [] s"

text \<open>
  \<open>document.getWordRangeAtPosition(position, /[\w.]+/)\<close> is a call into the editor. It is
  modelled after the editor's documentation: the range of the match of the pattern on the
  line of the position that contains the position, its end included; \<open>None\<close> is
  \<open>undefined\<close>. The range is given by its start and end character on that line.
\<close>

definition getWordRangeAtPosition :: "string \<Rightarrow> nat \<Rightarrow> (nat \<times> nat) option" where
  "getWordRangeAtPosition lineText character =
     map_option (\<lambda>(start, word). (start, start + length word))
       (find (\<lambda>(start, word). start \<le> character \<and> character \<le> start + length word)
          (class_runs word_or_dot lineText))"

text \<open>\<open>\b\<close> at index \<open>i\<close> of \<open>s\<close>: exactly one of the characters on its two sides is a word character.\<close>

definition word_boundary :: "string \<Rightarrow> nat \<Rightarrow> bool" where
  "word_boundary s i =
     ((0 < i \<and> i \<le> length s \<and> is_word_char (s ! (i - 1))) \<noteq> (i < length s \<and> is_word_char (s ! i)))"

text \<open>
  \<open>/\b<lit>([\w.]+)$/.exec(s)\<close> for a literal that starts with a word character, as
  \<open>/\btheme\.([\w.]+)$/\<close> and \<open>/\bprops\.theme\.([\w.]+)$/\<close>: the leftmost index at a word
  boundary where the literal stands and is followed, up to the end of \<open>s\<close>, by one or more
  characters of \<open>[\w.]\<close>. The result is capture group 1.
\<close>

definition exec_literal_path :: "string \<Rightarrow> string \<Rightarrow> string option" where
  "exec_literal_path lit s =
     map_option (\<lambda>i. drop (i + length lit) s)
       (find (\<lambda>i. word_boundary s i \<and> prefix lit (drop i s)
                 \<and> drop (i + length lit) s \<noteq> [] \<and> list_all word_or_dot (drop (i + length lit) s))
          [0..<length s])"

text \<open>
  \<open>/\(\s*\{\s*theme\s*\}\s*\)\s*=>\s*theme\.([\w.]+)$/.exec(s)\<close>. Every \<open>\s*\<close> is followed by
  a literal that is not white space, so a match from a given index is found by skipping
  white space and reading the next literal, in turn.
\<close>

definition expect :: "string \<Rightarrow> string \<Rightarrow> string option" where
  "expect lit s = (if prefix lit s then Some (drop (length lit) s) else None)"

definition skip_space_then :: "string \<Rightarrow> string \<Rightarrow> string option" where
  "skip_space_then lit s = expect lit (dropWhile is_space_char s)"

definition destructured_arrow_at :: "string \<Rightarrow> string option" where
  "destructured_arrow_at s =
     Option.bind (expect ''('' s) (\<lambda>s.
     Option.bind (skip_space_then ''{'' s) (\<lambda>s.
     Option.bind (skip_space_then ''theme'' s) (\<lambda>s.
     Option.bind (skip_space_then ''}'' s) (\<lambda>s.
     Option.bind (skip_space_then '')'' s) (\<lambda>s.
     Option.bind (skip_space_then ''=>'' s) (\<lambda>s.
     Option.bind (skip_space_then ''theme.'' s) (\<lambda>g.
       if g \<noteq> [] \<and> list_all word_or_dot g then Some g else None)))))))"

definition exec_destructured_arrow :: "string \<Rightarrow> string option" where
  "exec_destructured_arrow s =
     Option.bind (find (\<lambda>i. destructured_arrow_at (drop i s) \<noteq> None) [0..<length s])
       (\<lambda>i. destructured_arrow_at (drop i s))"

text \<open>The array \<open>themeAccessPatterns\<close>, each pattern as the function \<open>pattern.exec\<close>.\<close>

definition themeAccessPatterns :: "(string \<Rightarrow> string option) list" where
  "themeAccessPatterns =
     [exec_literal_path ''theme.'', exec_literal_path ''props.theme.'', exec_destructured_arrow]"

subsection \<open>getExtendedHoverText\<close>

text \<open>
  The loop over the matches of \<open>/([\w$.]+)/g\<close> on the line returns at the first match that
  passes every test; \<open>None\<close> is \<open>null\<close>.
\<close>

definition getExtendedHoverText :: "table option \<Rightarrow> string \<Rightarrow> nat \<Rightarrow> string \<Rightarrow> string option" where
  "getExtendedHoverText themeData lineText character currentWord =
     map_option snd
       (find (\<lambda>(matchStartIndex, potentialPath).
                matchStartIndex \<le> character \<and> character \<le> matchStartIndex + length potentialPath
                \<and> (startsWith potentialPath ''theme.'' \<or> js_includes potentialPath ''.'')
                \<and> js_includes potentialPath currentWord
                \<and> (case themeData of
                      None \<Rightarrow> False
                    | Some t \<Rightarrow> startsWith potentialPath ''theme.''
                                \<and> lookup_truthy t (drop (length ''theme.'') potentialPath)))
          (class_runs word_dollar_or_dot lineText))"

subsection \<open>provideHover\<close>

text \<open>
  The hover the provider returns: the path and the value shown in its code block
  \<open>`${path}: ${value}`\<close>, the word range, and for the fallback the note
  \<open>(Note: Assuming `seg` is derived from theme)\<close>, given by \<open>seg\<close>. A hover without a note
  is the one of the first, direct tier.
\<close>

record hover =
  hover_path :: string
  hover_value :: jsval
  hover_range :: "nat \<times> nat"
  hover_note :: "string option"

text \<open>The for loop over \<open>themeAccessPatterns\<close>, with its \<open>break\<close> at the first pattern that applies.\<close>

fun try_patterns :: "(string \<Rightarrow> string option) list \<Rightarrow> string \<Rightarrow> string \<Rightarrow> string option" where
  "try_patterns [] lineTillHover hoveredWord = None"
| "try_patterns (pattern # patterns) lineTillHover hoveredWord =
     (case pattern lineTillHover of
        None \<Rightarrow> try_patterns patterns lineTillHover hoveredWord
      | Some g \<Rightarrow>
          if g \<noteq> [] \<and> (hoveredWord = g \<or> endsWith g hoveredWord) then Some g
          else try_patterns patterns lineTillHover hoveredWord)"

text \<open>
  The value assigned to \<open>fullThemePath\<close>; \<open>None\<close> is \<open>null\<close>. The innermost test of the
  source compares the text of the word range with itself and is always true.
\<close>

definition fullThemePath_of ::
  "table option \<Rightarrow> string \<Rightarrow> nat \<Rightarrow> (nat \<times> nat) \<Rightarrow> string \<Rightarrow> string option"
where
  "fullThemePath_of themeData lineText character wordRange hoveredWord =
     (if startsWith hoveredWord ''theme.'' then Some (drop (length ''theme.'') hoveredWord)
      else
        (case getExtendedHoverText themeData lineText character hoveredWord of
           Some extendedHoverText \<Rightarrow>
             if startsWith extendedHoverText ''theme.''
             then Some (drop (length ''theme.'') extendedHoverText)
             else try_patterns themeAccessPatterns (substring lineText 0 (snd wordRange)) hoveredWord
         | None \<Rightarrow>
             try_patterns themeAccessPatterns (substring lineText 0 (snd wordRange)) hoveredWord))"

text \<open>
  \<open>provideHover\<close>, from the table read by \<open>getThemeData()\<close>, the text of the line of the
  position, the character of the position and the file name of the document. The result
  \<open>None\<close> is \<open>null\<close>. A \<open>string | null\<close> is falsy when it is \<open>null\<close> or empty.
\<close>

definition provideHover :: "table option \<Rightarrow> string \<Rightarrow> nat \<Rightarrow> string \<Rightarrow> hover option" where
  "provideHover themeData lineText character fileName =
     (case themeData of
        None \<Rightarrow> None
      | Some t \<Rightarrow>
          (case getWordRangeAtPosition lineText character of
             None \<Rightarrow> None
           | Some wordRange \<Rightarrow>
               (let hoveredWord = substring lineText (fst wordRange) (snd wordRange);
                    fullThemePath = fullThemePath_of themeData lineText character wordRange hoveredWord;
                    path = (case fullThemePath of None \<Rightarrow> [] | Some p \<Rightarrow> p)
                in if path \<noteq> [] \<and> hasOwnProperty t path then
                     (case map_of t path of
                        None \<Rightarrow> None
                      | Some v \<Rightarrow>
                          Some \<lparr> hover_path = path, hover_value = v,
                                 hover_range = wordRange, hover_note = None \<rparr>)
                   else if path = [] \<and> hasOwnProperty t hoveredWord
                           \<and> js_includes lineText ''${''
                           \<and> (js_includes lineText ''styled'' \<or> endsWith fileName ''.styled.ts'')
                   then
                     (case map_of t hoveredWord of
                        None \<Rightarrow> None
                      | Some v \<Rightarrow>
                          Some \<lparr> hover_path = hoveredWord, hover_value = v,
                                 hover_range = wordRange,
                                 hover_note = array_get (js_split CHR ''.'' hoveredWord) 0 \<rparr>)
                   else None)))"

section \<open>Example inputs of the providers\<close>

text \<open>\<open>{"palette.primary.main": "#1976d2", "typography.fontSize": 14}\<close>\<close>

definition palette_typography_table :: table where
  "palette_typography_table =
     [(''palette.primary.main'', JStr ''#1976d2''), (''typography.fontSize'', JNum 14)]"

text \<open>\<open>{"typography.fontSize": 14}\<close> and the line \<open>${({theme}) => theme.typography.fontSize}\<close>\<close>

definition fontSize_table :: table where
  "fontSize_table = [(''typography.fontSize'', JNum 14)]"

definition fontSize_line :: string where
  "fontSize_line = ''${({theme}) => theme.typography.fontSize}''"

text \<open>
  The text \<open>theme.a theme.b\<close> with the table \<open>{"a": "x", "b": "y"}\<close>: the pattern matches
  twice, at index 0 and at index 8, each time through its first alternative.
\<close>

definition two_paths_table :: table where
  "two_paths_table = [(''a'', JStr ''x''), (''b'', JStr ''y'')]"

definition two_paths_matches :: "regex_match list" where
  "two_paths_matches =
     [\<lparr> match_index = 0, match_text = ''theme.a'', group1 = Some ''a'', group2 = None, group3 = None \<rparr>,
      \<lparr> match_index = 8, match_text = ''theme.b'', group1 = Some ''b'', group2 = None, group3 = None \<rparr>]"

text \<open>A token that reads \<open>false\<close> at the first iteration and \<open>true\<close> from the second on.\<close>

definition cancelled_after_first :: cancel_token where
  "cancelled_after_first = (\<lambda>i. 1 \<le> i)"

text \<open>\<open>{"zIndex.appBar": 1100, "breakpoints.values.xs": 0}\<close>\<close>

definition zIndex_first_table :: table where
  "zIndex_first_table = [(''zIndex.appBar'', JNum 1100), (''breakpoints.values.xs'', JNum 0)]"

text \<open>A table in which two segments below \<open>palette\<close> begin with \<open>pri\<close> and one does not\<close>

definition prime_table :: table where
  "prime_table =
     [(''palette.primary'', JStr ''#1976d2''), (''palette.secondary'', JStr ''#9c27b0''),
      (''palette.prime'', JStr ''#ffffff'')]"

text \<open>
  The members of the theme file \<open>{"b.x": 1, "10": 2, "2.y": 3}\<close>, in the order of the
  file
\<close>

definition numeric_keys_members :: "(string \<times> jsval) list" where
  "numeric_keys_members = [(''b.x'', JNum 1), (''10'', JNum 2), (''2.y'', JNum 3)]"

section \<open>Properties of flattenObject\<close>

subsection \<open>Assignments to the table\<close>






subsection \<open>One step of the loop\<close>

lemma flattenObject_loop_Nil:
  "flattenObject_loop call h obj [] parentKey result = Some (Inr result)"
  by (subst flattenObject_loop.simps) simp

lemma flattenObject_loop_Cons:
  "flattenObject_loop call h obj ((key, v) # rest) parentKey result =
     (case property_step call h obj parentKey key v of
        Throw e \<Rightarrow> Some (Inl e)
      | Skip \<Rightarrow> flattenObject_loop call h obj rest parentKey result
      | Assign k w \<Rightarrow> flattenObject_loop call h obj rest parentKey (js_assign result k w)
      | Recurse v' nk \<Rightarrow>
          Option.bind (flattenObject_loop call h v' (enumerate_props h v') nk result)
            (\<lambda>r. case r of
                   Inl e \<Rightarrow> Some (Inl e)
                 | Inr result' \<Rightarrow> flattenObject_loop call h obj rest parentKey result'))"
  by (subst flattenObject_loop.simps) simp

lemmas flattenObject_eval =
  flattenObject_def flattenObject_loop_Cons flattenObject_loop_Nil property_step_def
  hasOwnProperty_call_def own_props_def newKey_def spacing_repr_def js_assign_def
  define_property_def is_array_index_def is_digit_def

text \<open>
  Three inputs on which the loop leaves the course of a plain tree: an own property named
  \<open>hasOwnProperty\<close> that is not a function (\<open>{ hasOwnProperty: 'x' }\<close>), an array at the
  top (\<open>[7, { k: 1 }]\<close>), and an own property named \<open>__proto__\<close>, for which the
  assignment creates no entry.
\<close>

lemma flattenObject_shadowed_example:
  "flattenObject call [[(''hasOwnProperty'', JStr ''x'')]] (JObj 0) [] [] = Some (Inl TypeError)"
  by (simp add: flattenObject_eval)

lemma flattenObject_array_example:
  "flattenObject call [[(''k'', JNum 1)]] (JArr [JNum 7, JObj 0]) [] []
     = Some (Inr [(''0'', JNum 7), (''1.k'', JNum 1)])"
  by (simp add: flattenObject_eval index_keys_def upt_rec nat_to_string.simps decimal_digit_def
      index_value_def)

lemma flattenObject_proto_example:
  "flattenObject call [[(''__proto__'', JArr []), (''a'', JNum 1)]] (JObj 0) [] []
     = Some (Inr [(''a'', JNum 1)])"
  by (simp add: flattenObject_eval)

lemma recursed_iff:
  "(typeof v = TyObject \<and> v \<noteq> JNull \<and> \<not> isArray v \<and> 0 < length (object_keys h v))
     = (\<exists>a. v = JObj a \<and> own_props h a \<noteq> [])"
  by (cases v) auto

lemma no_shadow_own_props: "no_shadow h \<Longrightarrow> map_of (own_props h a) ''hasOwnProperty'' = None"
  by (simp add: no_shadow_def own_props_def list_all_length)

lemma hasOwnProperty_call_plain:
  "no_shadow h \<Longrightarrow> hasOwnProperty_call call h obj key = Inr True"
  by (cases obj) (simp_all add: hasOwnProperty_call_def no_shadow_own_props)

text \<open>The body of the loop on a heap of objects that do not shadow \<open>hasOwnProperty\<close>.\<close>

lemma property_step_composite:
  "no_shadow h \<Longrightarrow> own_props h a \<noteq> [] \<Longrightarrow>
   property_step call h obj parentKey key (JObj a) = Recurse (JObj a) (newKey parentKey key)"
  by (simp add: property_step_def hasOwnProperty_call_plain)

lemma property_step_leaf:
  "no_shadow h \<Longrightarrow> \<not> (\<exists>a. v = JObj a \<and> own_props h a \<noteq> []) \<Longrightarrow>
   property_step call h obj parentKey key v =
     (if typeof v \<noteq> TyFunction then Assign (newKey parentKey key) v
      else if key = ''spacing'' then Assign (newKey parentKey key) (spacing_repr v)
      else Skip)"
  by (cases v) (simp_all add: property_step_def hasOwnProperty_call_plain)

lemma property_step_never_throws:
  "no_shadow h \<Longrightarrow> property_step call h obj parentKey key v \<noteq> Throw e"
  by (cases "\<exists>a. v = JObj a \<and> own_props h a \<noteq> []")
     (auto simp: property_step_composite property_step_leaf)

subsection \<open>Returning is the same as meeting no cycle\<close>

lemma composite_children_Nil: "composite_children h [] = {}"
  by (simp add: composite_children_def)

lemma composite_children_Cons:
  "composite_children h ((k, v) # rest) =
     (case v of JObj a \<Rightarrow> (if own_props h a \<noteq> [] then {a} else {}) | _ \<Rightarrow> {})
     \<union> composite_children h rest"
  by (cases v) (auto simp: composite_children_def)

lemma finite_child_rel: "finite (child_rel h)"
proof -
  have "child_rel h \<subseteq> {..<length h} \<times> {..<length h}"
    by (auto simp: child_rel_def composite_children_def own_props_def split: if_splits)
  then show ?thesis by (rule finite_subset) simp
qed

lemma loop_returns_if_children_return:
  assumes plain: "no_shadow h"
    and children: "\<And>b pk res. b \<in> composite_children h ps \<Longrightarrow>
           \<exists>t. flattenObject_loop call h (JObj b) (own_props h b) pk res = Some (Inr t)"
  shows "\<exists>t. flattenObject_loop call h obj ps parentKey result = Some (Inr t)"
  using children
proof (induction ps arbitrary: result)
  case Nil
  then show ?case by (simp add: flattenObject_loop_Nil)
next
  case (Cons p rest)
  obtain key v where p: "p = (key, v)" by (cases p)
  have rest: "\<exists>t. flattenObject_loop call h obj rest parentKey r = Some (Inr t)" for r
    by (rule Cons.IH) (rule Cons.prems, auto simp: p composite_children_Cons)
  show ?case
  proof (cases "\<exists>a. v = JObj a \<and> own_props h a \<noteq> []")
    case True
    then obtain a where a: "v = JObj a" "own_props h a \<noteq> []" by blast
    then have "a \<in> composite_children h (p # rest)"
      by (simp add: p composite_children_Cons)
    then obtain r where
      "flattenObject_loop call h (JObj a) (own_props h a) (newKey parentKey key) result
         = Some (Inr r)"
      using Cons.prems by blast
    with a rest [of r] plain show ?thesis
      by (simp add: p flattenObject_loop_Cons property_step_composite)
  next
    case False
    with rest plain show ?thesis
      by (simp add: p flattenObject_loop_Cons property_step_leaf)
  qed
qed

lemma cycle_step:
  assumes "(c, b) \<in> R\<^sup>*" "(c, c) \<in> R\<^sup>+"
  shows "\<exists>z. (c, z) \<in> R\<^sup>* \<and> (z, b) \<in> R"
proof (cases "c = b")
  case True
  with assms(2) show ?thesis by (auto dest: tranclD2)
next
  case False
  with assms(1) have "(c, b) \<in> R\<^sup>+" by (auto elim: rtranclE)
  then show ?thesis by (auto dest: tranclD2)
qed

lemma returns_plain:
  assumes plain: "no_shadow h0"
    and ret: "flattenObject_loop call h0 obj0 ps0 pk0 res0 = Some r0"
  shows "\<not> isl r0 \<and> \<not> cyclic_from h0 ps0"
proof -
  have "h0 = h0 \<longrightarrow> \<not> isl r0 \<and> \<not> cyclic_from h0 ps0"
  proof (rule flattenObject_loop.raw_induct
         [where P = "\<lambda>call h obj ps pk res r. h = h0 \<longrightarrow> \<not> isl r \<and> \<not> cyclic_from h ps",
          OF _ ret],
         goal_cases)
    case (1 f call h obj ps parentKey result r)
    note IH = 1(1)
    show ?case
    proof
      assume h: "h = h0"
      with plain have plain': "no_shadow h" by simp
      show "\<not> isl r \<and> \<not> cyclic_from h ps"
      proof (cases ps)
        case Nil
        with 1(2) show ?thesis by (auto simp: cyclic_from_def composite_children_Nil)
      next
        case (Cons p rest)
        obtain key v where p: "p = (key, v)" by (cases p)
        show ?thesis
        proof (cases "\<exists>a. v = JObj a \<and> own_props h a \<noteq> []")
          case True
          then obtain a where a: "v = JObj a" "own_props h a \<noteq> []" by blast
          from 1(2) a plain' obtain r1 where
            r1: "f call h (JObj a) (own_props h a) (newKey parentKey key) result = Some r1" and
            r2: "(case r1 of Inl e \<Rightarrow> Some (Inl e)
                  | Inr result' \<Rightarrow> f call h obj rest parentKey result') = Some r"
            by (auto simp: Cons p flattenObject_loop_Cons property_step_composite
                split: bind_splits)
          from IH [OF r1] h have n1: "\<not> isl r1" "\<not> cyclic_from h (own_props h a)" by simp_all
          from n1(1) obtain t1 where "r1 = Inr t1" by (cases r1) auto
          with r2 have "f call h obj rest parentKey t1 = Some r" by simp
          from IH [OF this] h have n2: "\<not> isl r" "\<not> cyclic_from h rest" by simp_all
          have "\<not> cyclic_from h ps"
          proof
            assume "cyclic_from h ps"
            then obtain b c where b: "b \<in> composite_children h ps"
              and cb: "(c, b) \<in> (child_rel h)\<^sup>*" and cc: "(c, c) \<in> (child_rel h)\<^sup>+"
              by (auto simp: cyclic_from_def)
            from b have "b = a \<or> b \<in> composite_children h rest"
              by (auto simp: Cons p a composite_children_Cons)
            then show False
            proof
              assume "b = a"
              with cycle_step [OF cb cc] obtain z where
                "(c, z) \<in> (child_rel h)\<^sup>*" "(z, a) \<in> child_rel h"
                by blast
              then have "cyclic_from h (own_props h a)"
                using cc by (auto simp: cyclic_from_def child_rel_def)
              with n1(2) show False ..
            next
              assume "b \<in> composite_children h rest"
              then have "cyclic_from h rest" using cb cc by (auto simp: cyclic_from_def)
              with n2(2) show False ..
            qed
          qed
          with n2(1) show ?thesis by simp
        next
          case False
          from 1(2) False plain' obtain res' where "f call h obj rest parentKey res' = Some r"
            by (auto simp: Cons p property_step_leaf split: if_splits)
          from IH [OF this] h have n2: "\<not> isl r" "\<not> cyclic_from h rest" by simp_all
          from False have "composite_children h ps = composite_children h rest"
            by (cases v) (auto simp: Cons p composite_children_Cons)
          with n2 show ?thesis by (simp add: cyclic_from_def)
        qed
      qed
    qed
  qed
  then show ?thesis by simp
qed

lemma not_cyclic_imp_returns:
  assumes plain: "no_shadow h" and acyclic: "\<not> cyclic_from h ps"
  shows "\<exists>t. flattenObject_loop call h obj ps parentKey result = Some (Inr t)"
proof -
  define S where "S = {c. \<exists>b \<in> composite_children h ps. (c, b) \<in> (child_rel h)\<^sup>*}"
  define R where "R = child_rel h \<inter> (S \<times> S)"
  have "finite R" unfolding R_def using finite_child_rel by blast
  moreover have "acyclic R"
  proof (rule acyclicI, rule allI, rule notI)
    fix c assume "(c, c) \<in> R\<^sup>+"
    then have cc: "(c, c) \<in> (child_rel h)\<^sup>+"
      unfolding R_def by (rule trancl_mono) simp
    from \<open>(c, c) \<in> R\<^sup>+\<close> have "c \<in> S"
      unfolding R_def by (auto dest: tranclD)
    with cc acyclic show False by (auto simp: cyclic_from_def S_def)
  qed
  ultimately have "wf R" by (rule finite_acyclic_wf)
  have obj: "a \<in> S \<longrightarrow>
      (\<forall>pk res. \<exists>t. flattenObject_loop call h (JObj a) (own_props h a) pk res = Some (Inr t))" for a
    using \<open>wf R\<close>
  proof (induction a rule: wf_induct_rule)
    case (less a)
    show ?case
    proof (intro impI allI)
      fix pk res
      assume aS: "a \<in> S"
      show "\<exists>t. flattenObject_loop call h (JObj a) (own_props h a) pk res = Some (Inr t)"
      proof (rule loop_returns_if_children_return [OF plain])
        fix b pk' res'
        assume b: "b \<in> composite_children h (own_props h a)"
        then have ba: "(b, a) \<in> child_rel h" by (simp add: child_rel_def)
        with aS have "b \<in> S" by (auto simp: S_def intro: converse_rtrancl_into_rtrancl)
        with ba aS have "(b, a) \<in> R" by (simp add: R_def)
        from less.IH [OF this] \<open>b \<in> S\<close>
        show "\<exists>t. flattenObject_loop call h (JObj b) (own_props h b) pk' res' = Some (Inr t)"
          by blast
      qed
    qed
  qed
  show ?thesis
  proof (rule loop_returns_if_children_return [OF plain])
    fix b pk res
    assume "b \<in> composite_children h ps"
    then have "b \<in> S" by (auto simp: S_def)
    with obj show "\<exists>t. flattenObject_loop call h (JObj b) (own_props h b) pk res = Some (Inr t)"
      by blast
  qed
qed

subsection \<open>The entries of the returned table\<close>





lemma dotted_path_single: "dotted_path pre [key] = newKey pre key"
  by (simp add: newKey_def)






subsection \<open>Cycles\<close>

text \<open>
  C1 (as amended). \<open>flattenObject\<close> keeps no set of visited objects and raises no
  \<open>MalformedTree\<close> error. On a theme built from scalars, functions, arrays and plain
  objects none of which has an own property named \<open>hasOwnProperty\<close>: when the traversal
  reaches an object that lies on a cycle, the recursion is unbounded and the call never
  returns (a JavaScript engine ends it with its own stack-exhaustion error); when it
  reaches none, in particular on every acyclic theme, the call returns a table.
\<close>

theorem flattenObject_returns_iff_acyclic:
  "no_shadow h \<Longrightarrow>
   (cyclic_from h (enumerate_props h obj) \<longrightarrow>
      flattenObject call h obj parentKey result = None)
   \<and> (\<not> cyclic_from h (enumerate_props h obj) \<longrightarrow>
      (\<exists>t. flattenObject call h obj parentKey result = Some (Inr t)))"
proof -
  assume plain: "no_shadow h"
  have "flattenObject call h obj parentKey result = None"
    if "cyclic_from h (enumerate_props h obj)"
  proof (cases "flattenObject call h obj parentKey result")
    case None
    then show ?thesis .
  next
    case (Some r)
    then have "\<not> cyclic_from h (enumerate_props h obj)"
      unfolding flattenObject_def using returns_plain [OF plain] by blast
    with that show ?thesis by simp
  qed
  moreover have "\<exists>t. flattenObject call h obj parentKey result = Some (Inr t)"
    if "\<not> cyclic_from h (enumerate_props h obj)"
    unfolding flattenObject_def using not_cyclic_imp_returns [OF plain that] .
  ultimately show ?thesis by blast
qed

theorem flattenObject_returns_iff_acyclic_witness:
  "no_shadow small_theme
   \<and> \<not> cyclic_from small_theme (enumerate_props small_theme (JObj 0))
   \<and> flattenObject answers_true small_theme (JObj 0) [] [] =
       Some (Inr [(''palette.main'', JStr ''#1976d2''), (''customProperty'', JStr ''customValue'')])"
proof -
  have plain: "no_shadow small_theme"
    by (simp add: no_shadow_def small_theme_def)
  have run: "flattenObject answers_true small_theme (JObj 0) [] [] =
       Some (Inr [(''palette.main'', JStr ''#1976d2''), (''customProperty'', JStr ''customValue'')])"
    by (simp add: flattenObject_eval small_theme_def)
  from flattenObject_returns_iff_acyclic [OF plain, of "JObj 0" answers_true "[]" "[]"] run plain
  show ?thesis by auto
qed

text \<open>
  C1 (as stated) fails on the object that contains itself: it is cyclic, and the call
  neither returns a table nor ends with an error of its own; it does not return.
\<close>

theorem flattenObject_cyclic_theme_never_returns:
  "cyclic_from cyclic_theme (enumerate_props cyclic_theme (JObj 0))
   \<and> flattenObject answers_true cyclic_theme (JObj 0) [] [] = None"
proof -
  have plain: "no_shadow cyclic_theme"
    by (simp add: no_shadow_def cyclic_theme_def)
  have "(0, 0) \<in> child_rel cyclic_theme"
    by (simp add: child_rel_def composite_children_def own_props_def cyclic_theme_def)
  then have cyc: "cyclic_from cyclic_theme (enumerate_props cyclic_theme (JObj 0))"
    by (auto simp: cyclic_from_def child_rel_def)
  then have "flattenObject answers_true cyclic_theme (JObj 0) [] [] \<noteq> Some r" for r
    unfolding flattenObject_def using returns_plain [OF plain] by blast
  then have "flattenObject answers_true cyclic_theme (JObj 0) [] [] = None"
    by (cases "flattenObject answers_true cyclic_theme (JObj 0) [] []") auto
  with cyc show ?thesis by simp
qed

subsection \<open>Empty objects and arrays\<close>








section \<open>Properties of the providers\<close>

subsection \<open>No table\<close>

text \<open>
  C4. When \<open>getThemeData()\<close> returns \<open>null\<close>, the completion provider and the hover
  provider return \<open>null\<close> and the inlay-hint provider returns the empty list, whatever the
  text, the position, the range, the matches and the token are. No path of the three
  providers raises an error before or at the test of the table.
\<close>

theorem providers_without_table:
  "provideCompletionItems themeAccessMatch None = None
   \<and> provideHover None lineText character fileName = None
   \<and> provideInlayHints None offset matches token = []"
  by (simp add: provideCompletionItems_def provideHover_def provideInlayHints_def
      split: option.split)

subsection \<open>Cancelling the inlay-hint scan\<close>

lemma inlay_loop_cancelled:
  "j < length ms \<Longrightarrow> token (i + j) \<Longrightarrow> inlay_loop t offset token i ms hints = []"
proof (induction ms arbitrary: i j hints)
  case Nil
  then show ?case by simp
next
  case (Cons m ms)
  show ?case
  proof (cases j)
    case 0
    with Cons.prems show ?thesis by simp
  next
    case (Suc j')
    with Cons.prems have "j' < length ms" "token (Suc i + j')" by simp_all
    then have "inlay_loop t offset token (Suc i) ms hs = []" for hs
      by (rule Cons.IH)
    then show ?thesis
      by (simp split: option.split)
  qed
qed

lemma inlay_loop_not_cancelled:
  "(\<forall>j<length ms. \<not> token (i + j)) \<Longrightarrow>
   inlay_loop t offset token i ms hints = inlay_loop t offset never_cancelled i ms hints"
proof (induction ms arbitrary: i hints)
  case Nil
  then show ?case by simp
next
  case (Cons m ms)
  from Cons.prems have now: "\<not> token i" by force
  from Cons.prems have "\<forall>j<length ms. \<not> token (Suc i + j)" by force
  then have "inlay_loop t offset token (Suc i) ms hs
               = inlay_loop t offset never_cancelled (Suc i) ms hs" for hs
    by (rule Cons.IH)
  with now show ?case
    by (simp add: never_cancelled_def split: option.split)
qed

text \<open>
  C2 (as amended). When the token reads \<open>true\<close> at the start of an iteration, the scan
  returns at once with the empty list: the hints pushed so far are discarded. The result
  of a scan is therefore either the empty list or, when no iteration saw a cancellation,
  the result of the uncancelled scan, and in both cases a prefix of the latter. The
  provider has no failing path: cancellation is reported by the returned list alone.
\<close>

theorem provideInlayHints_cancellation:
  "prefix (provideInlayHints themeData offset matches token)
     (provideInlayHints themeData offset matches never_cancelled)
   \<and> ((\<exists>i<length matches. token i) \<longrightarrow>
        provideInlayHints themeData offset matches token = [])
   \<and> ((\<forall>i<length matches. \<not> token i) \<longrightarrow>
        provideInlayHints themeData offset matches token
          = provideInlayHints themeData offset matches never_cancelled)"
proof -
  have cancelled: "provideInlayHints themeData offset matches token = []"
    if "\<exists>i<length matches. token i"
    using that inlay_loop_cancelled [of _ matches token 0]
    by (auto simp: provideInlayHints_def split: option.split)
  have free: "provideInlayHints themeData offset matches token
                = provideInlayHints themeData offset matches never_cancelled"
    if "\<forall>i<length matches. \<not> token i"
    using that inlay_loop_not_cancelled [of matches token 0]
    by (auto simp: provideInlayHints_def split: option.split)
  from cancelled free show ?thesis
    by (cases "\<exists>i<length matches. token i") auto
qed

theorem provideInlayHints_cancellation_witness:
  "(\<exists>i<length two_paths_matches. cancelled_after_first i)
   \<and> provideInlayHints (Some two_paths_table) 0 two_paths_matches cancelled_after_first = []
   \<and> prefix (provideInlayHints (Some two_paths_table) 0 two_paths_matches cancelled_after_first)
       (provideInlayHints (Some two_paths_table) 0 two_paths_matches never_cancelled)"
proof -
  have seen: "\<exists>i<length two_paths_matches. cancelled_after_first i"
    by (rule exI [of _ 1]) (simp add: two_paths_matches_def cancelled_after_first_def)
  with provideInlayHints_cancellation
         [of "Some two_paths_table" 0 two_paths_matches cancelled_after_first]
  show ?thesis by blast
qed

text \<open>
  C2 (as stated) fails on the text \<open>theme.a theme.b\<close> when the token is cancelled between
  the two matches: one hint has been produced when the cancellation is met, and the scan
  returns the empty list instead of it.
\<close>

theorem provideInlayHints_drops_partial_results:
  "results_so_far (Some two_paths_table) 0 two_paths_matches cancelled_after_first
     = [\<lparr> hint_offset = 7, hint_label = ''= x'', hint_tooltip = ''Theme: `a: x`'' \<rparr>]
   \<and> provideInlayHints (Some two_paths_table) 0 two_paths_matches cancelled_after_first = []"
  by (simp add: results_so_far_def first_cancelled_def provideInlayHints_def
      two_paths_table_def two_paths_matches_def cancelled_after_first_def never_cancelled_def
      js_or_def hasOwnProperty_def displayValue_def to_string_def)

subsection \<open>Completion on the two-key table\<close>

text \<open>
  C5. With the table \<open>{"palette.primary.main": "#1976d2", "typography.fontSize": 14}\<close> and
  an empty typed path, the provider returns exactly two items, \<open>palette\<close> and
  \<open>typography\<close>, in this order; both insert a trailing dot and re-trigger completion,
  because a key of the table extends each of them by a further segment.
\<close>

theorem complete_empty_prefix_example:
  "provideCompletionItems (Some []) (Some palette_typography_table) =
     Some [\<lparr> label = ''palette'', insertText = ''palette.'', filterText = ''palette'',
              kind = KindModule, retrigger = True, detail = ''Theme: palette'',
              documentation = DocPath ''palette'' \<rparr>,
           \<lparr> label = ''typography'', insertText = ''typography.'', filterText = ''typography'',
              kind = KindModule, retrigger = True, detail = ''Theme: typography'',
              documentation = DocPath ''typography'' \<rparr>]
   \<and> hasChildren palette_typography_table ''palette''
   \<and> hasChildren palette_typography_table ''typography''"
  by (simp add: provideCompletionItems_def complete_def palette_typography_table_def
      startsWith_def endsWith_def suggestionSegment_def array_get_def
      potentialFullThemePath_def lastIndexOf_def hasChildren_def formsValidPrefix_def
      hasOwnProperty_def make_item_def item_documentation_def inherited_member_def
      object_prototype_members_def Let_def)

subsection \<open>Hover\<close>

lemma fontSize_line_runs:
  "class_runs word_or_dot fontSize_line = [(4, ''theme''), (15, ''theme.typography.fontSize'')]"
  by (simp add: class_runs_def fontSize_line_def word_or_dot_def is_word_char_def)

text \<open>
  C8. On the line \<open>${({theme}) => theme.typography.fontSize}\<close>, whose token \<open>fontSize\<close>
  occupies the characters 32 to 40, a hover at any position inside that token resolves,
  with the table \<open>{"typography.fontSize": 14}\<close>, to the path \<open>typography.fontSize\<close> and the
  value 14 through the direct tier: the hover carries no note of an inferred match.
\<close>

theorem provideHover_fontSize_example:
  "32 \<le> character \<Longrightarrow> character \<le> 40 \<Longrightarrow>
   provideHover (Some fontSize_table) fontSize_line character fileName =
     Some \<lparr> hover_path = ''typography.fontSize'', hover_value = JNum 14,
            hover_range = (15, 40), hover_note = None \<rparr>"
proof -
  assume pos: "32 \<le> character" "character \<le> 40"
  then have range: "getWordRangeAtPosition fontSize_line character = Some (15, 40)"
    by (simp add: getWordRangeAtPosition_def fontSize_line_runs)
  have word: "substring fontSize_line 15 40 = ''theme.typography.fontSize''"
    by (simp add: substring_def fontSize_line_def)
  show ?thesis
    by (simp add: provideHover_def range word fullThemePath_of_def startsWith_def
        hasOwnProperty_def fontSize_table_def Let_def)
qed

theorem provideHover_fontSize_example_witness:
  "(32::nat) \<le> 35 \<and> (35::nat) \<le> 40 \<and>
   provideHover (Some fontSize_table) fontSize_line 35 ''Button.tsx'' =
     Some \<lparr> hover_path = ''typography.fontSize'', hover_value = JNum 14,
            hover_range = (15, 40), hover_note = None \<rparr>"
  using provideHover_fontSize_example [of 35 "''Button.tsx''"] by simp

text \<open>
  C10. Both places where the provider builds a hover are guarded by
  \<open>themeData.hasOwnProperty\<close>: every hover it returns, direct or inferred, names a path that
  is a key of the table, and shows the value the table holds for it.
\<close>

theorem provideHover_path_in_table:
  "provideHover themeData lineText character fileName = Some hv \<Longrightarrow>
   \<exists>t. themeData = Some t \<and> hasOwnProperty t (hover_path hv)
       \<and> map_of t (hover_path hv) = Some (hover_value hv)"
proof -
  assume hv: "provideHover themeData lineText character fileName = Some hv"
  then obtain t where t: "themeData = Some t"
    by (cases themeData) (simp_all add: provideHover_def)
  from hv t obtain wordRange where
    range: "getWordRangeAtPosition lineText character = Some wordRange"
    by (cases "getWordRangeAtPosition lineText character") (simp_all add: provideHover_def)
  from hv have "hasOwnProperty t (hover_path hv) \<and> map_of t (hover_path hv) = Some (hover_value hv)"
    unfolding provideHover_def t range
    by (auto simp: Let_def split: option.splits if_splits)
  with t show ?thesis by blast
qed

theorem provideHover_path_in_table_witness:
  "provideHover (Some [(''fontSize'', JNum 14)]) ''styled.div` ${fontSize} `'' 16 ''Box.tsx'' =
     Some \<lparr> hover_path = ''fontSize'', hover_value = JNum 14,
            hover_range = (14, 22), hover_note = Some ''fontSize'' \<rparr>
   \<and> hasOwnProperty [(''fontSize'', JNum 14)] ''fontSize''"
proof -
  have run: "provideHover (Some [(''fontSize'', JNum 14)]) ''styled.div` ${fontSize} `'' 16 ''Box.tsx'' =
     Some \<lparr> hover_path = ''fontSize'', hover_value = JNum 14,
            hover_range = (14, 22), hover_note = Some ''fontSize'' \<rparr>"
    by code_simp
  from provideHover_path_in_table [OF run] run show ?thesis by simp
qed

section \<open>Properties of the completion loop\<close>

subsection \<open>Splitting at dots\<close>

lemma js_split_not_Nil: "js_split c s \<noteq> []"
  by (induction s) (auto split: list.split)

lemma hd_js_split: "hd (js_split c s) = takeWhile (\<lambda>x. x \<noteq> c) s"
  by (induction s) (auto split: list.split simp: js_split_not_Nil)

lemma length_js_split: "length (js_split c s) = Suc (length (filter (\<lambda>x. x = c) s))"
  by (induction s) (auto split: list.split simp: js_split_not_Nil)

lemma js_split_nth_after_boundary:
  "b = [] \<or> last b = c \<Longrightarrow>
   js_split c (b @ s) ! length (filter (\<lambda>x. x = c) b) = takeWhile (\<lambda>x. x \<noteq> c) s"
proof (induction b)
  case Nil
  have "js_split c s ! 0 = hd (js_split c s)"
    using js_split_not_Nil [of c s] by (cases "js_split c s") auto
  then show ?case by (simp add: hd_js_split)
next
  case (Cons x b)
  then have b: "b = [] \<or> last b = c" by (auto split: if_splits)
  show ?case
  proof (cases "x = c")
    case True
    with Cons.IH [OF b] show ?thesis by simp
  next
    case False
    with Cons.prems have "b \<noteq> []" "last b = c" by (auto split: if_splits)
    then have "c \<in> set b" using last_in_set by metis
    then have pos: "0 < length (filter (\<lambda>x. x = c) b)"
      by (simp add: filter_empty_conv)
    obtain seg segs where split: "js_split c (b @ s) = seg # segs"
      using js_split_not_Nil [of c "b @ s"] by (cases "js_split c (b @ s)") auto
    from pos have "((x # seg) # segs) ! length (filter (\<lambda>x. x = c) b)
                     = (seg # segs) ! length (filter (\<lambda>x. x = c) b)"
      by (cases "length (filter (\<lambda>x. x = c) b)") auto
    with False split Cons.IH [OF b] show ?thesis by simp
  qed
qed

lemma substring_from_0: "substring s 0 n = take n s"
  by (simp add: substring_def min_def)

subsection \<open>The node boundary\<close>

lemma node_boundary_partial: "node_boundary p @ partial_segment p = p"
proof -
  have "rev (node_boundary p @ partial_segment p) = rev p"
    by (simp add: node_boundary_def partial_segment_def)
  then show ?thesis using rev_is_rev_conv by blast
qed

lemma partial_segment_no_dot: "CHR ''.'' \<notin> set (partial_segment p)"
  by (auto simp: partial_segment_def dest: set_takeWhileD)

lemma node_boundary_ends: "node_boundary p = [] \<or> last (node_boundary p) = CHR ''.''"
proof (cases "dropWhile (\<lambda>c. c \<noteq> CHR ''.'') (rev p)")
  case Nil
  then show ?thesis by (simp add: node_boundary_def)
next
  case (Cons x xs)
  then have "x = CHR ''.''" using hd_dropWhile [of "\<lambda>c. c \<noteq> CHR ''.''" "rev p"] by auto
  with Cons show ?thesis by (simp add: node_boundary_def)
qed

lemma node_boundary_dot: "endsWith p ''.'' \<Longrightarrow> node_boundary p = p"
  by (auto simp: endsWith_def suffix_def node_boundary_def)

lemma node_boundary_idem: "node_boundary (node_boundary p) = node_boundary p"
proof (cases "node_boundary p = []")
  case True
  then show ?thesis by (simp add: node_boundary_def)
next
  case False
  with node_boundary_ends [of p] obtain q where "node_boundary p = q @ ''.''"
    by (metis append_butlast_last_id)
  then show ?thesis by (intro node_boundary_dot) (simp add: endsWith_def suffix_def)
qed

lemma dots_node_boundary:
  "length (filter (\<lambda>x. x = CHR ''.'') (node_boundary p)) = length (filter (\<lambda>x. x = CHR ''.'') p)"
proof -
  have "filter (\<lambda>x. x = CHR ''.'') (partial_segment p) = []"
    using partial_segment_no_dot [of p] by (auto simp: filter_empty_conv)
  then have "filter (\<lambda>x. x = CHR ''.'') p = filter (\<lambda>x. x = CHR ''.'') (node_boundary p)"
    using node_boundary_partial [of p] by (metis append_Nil2 filter_append)
  then show ?thesis by simp
qed

lemma next_segment_node_boundary: "next_segment (node_boundary p) k = next_segment p k"
  by (simp add: next_segment_def node_boundary_idem)

subsection \<open>What one iteration of the completion loop computes\<close>

lemma suggestionSegment_next_segment:
  assumes "startsWith k p"
  shows "suggestionSegment p k = Some (next_segment p k)"
proof (cases "endsWith p ''.''")
  case True
  have "array_get (js_split CHR ''.'' (drop (length p) k)) 0
          = Some (hd (js_split CHR ''.'' (drop (length p) k)))"
    using js_split_not_Nil [of "CHR ''.''" "drop (length p) k"]
    by (cases "js_split CHR ''.'' (drop (length p) k)") (auto simp: array_get_def)
  with True show ?thesis
    by (simp add: suggestionSegment_def next_segment_def node_boundary_dot hd_js_split)
next
  case False
  from assms obtain r where k: "k = p @ r" by (auto simp: startsWith_def prefix_def)
  let ?dots = "\<lambda>s. length (filter (\<lambda>x. x = CHR ''.'') s)"
  have k': "k = node_boundary p @ (partial_segment p @ r)"
    by (simp add: k node_boundary_partial flip: append_assoc)
  have "js_split CHR ''.'' k ! ?dots (node_boundary p) = next_segment p k"
    unfolding next_segment_def
    by (subst (1 2) k') (simp add: js_split_nth_after_boundary node_boundary_ends)
  then have nth: "js_split CHR ''.'' k ! ?dots p = next_segment p k"
    by (simp add: dots_node_boundary)
  have le: "?dots p \<le> ?dots k" by (simp add: k)
  with False nth show ?thesis
    by (simp add: suggestionSegment_def Let_def length_js_split array_get_def js_split_not_Nil)
qed

lemma potentialFullThemePath_node_boundary:
  "potentialFullThemePath p seg = node_boundary p @ seg"
proof (cases "endsWith p ''.''")
  case True
  then show ?thesis by (simp add: potentialFullThemePath_def node_boundary_dot)
next
  case False
  show ?thesis
  proof (cases "CHR ''.'' \<in> set p")
    case no_dot: False
    then have "dropWhile (\<lambda>c. c \<noteq> CHR ''.'') (rev p) = []" by (auto simp: dropWhile_eq_Nil_conv)
    with no_dot False show ?thesis
      by (simp add: potentialFullThemePath_def lastIndexOf_def node_boundary_def)
  next
    case True
    let ?tw = "takeWhile (\<lambda>c. c \<noteq> CHR ''.'') (rev p)"
    have parts: "?tw @ dropWhile (\<lambda>c. c \<noteq> CHR ''.'') (rev p) = rev p" by simp
    have rest: "dropWhile (\<lambda>c. c \<noteq> CHR ''.'') (rev p) \<noteq> []"
      using True by (auto simp: dropWhile_eq_Nil_conv)
    from parts have "length (rev p) = length ?tw + length (dropWhile (\<lambda>c. c \<noteq> CHR ''.'') (rev p))"
      by (metis length_append)
    with rest have lt: "length ?tw < length p" by simp
    then have idx: "length p - 1 - length ?tw + 1 = length p - length ?tw" by simp
    have "take (length p - length ?tw) p = rev (drop (length ?tw) (rev p))"
      by (simp add: rev_drop)
    also have "\<dots> = node_boundary p"
      by (simp add: node_boundary_def dropWhile_eq_drop)
    finally have "substring p 0 (length p - 1 - length ?tw + 1) = node_boundary p"
      by (simp only: idx substring_from_0)
    with True False show ?thesis
      by (simp add: potentialFullThemePath_def lastIndexOf_def)
  qed
qed

lemma formsValidPrefix_of_key:
  assumes "k \<in> set (map fst t)" "startsWith k p"
  shows "formsValidPrefix t (potentialFullThemePath p (next_segment p k))"
proof -
  from assms(2) obtain r where k: "k = p @ r" by (auto simp: startsWith_def prefix_def)
  have "k = node_boundary p @ (partial_segment p @ r)"
    by (simp add: k node_boundary_partial flip: append_assoc)
  then have "drop (length (node_boundary p)) k = partial_segment p @ r"
    by (metis append_eq_conv_conj)
  then have "k = node_boundary p @ next_segment p k
                 @ dropWhile (\<lambda>c. c \<noteq> CHR ''.'') (drop (length (node_boundary p)) k)"
    unfolding next_segment_def
    by (metis append_take_drop_id takeWhile_dropWhile_id append_eq_conv_conj \<open>k = node_boundary p @ (partial_segment p @ r)\<close>)
  then have "startsWith k (node_boundary p @ next_segment p k)"
    unfolding startsWith_def by (metis append_assoc prefixI)
  with assms(1) show ?thesis
    unfolding formsValidPrefix_def list_ex_iff potentialFullThemePath_node_boundary by blast
qed

subsection \<open>The loop as a whole\<close>

lemma removeAll_filter: "removeAll x (filter P xs) = filter (\<lambda>y. P y \<and> y \<noteq> x) xs"
  by (induction xs) auto

lemma first_seen_filter: "first_seen (filter P xs) = filter P (first_seen xs)"
proof (induction xs rule: first_seen.induct)
  case 1
  then show ?case by simp
next
  case (2 x xs)
  have swap: "removeAll x (filter P xs) = filter P (removeAll x xs)"
    by (induction xs) auto
  show ?case
  proof (cases "P x")
    case True
    with 2 show ?thesis by (simp add: swap)
  next
    case False
    then have "filter P (removeAll x xs) = filter P xs"
      by (induction xs) auto
    with False 2 show ?thesis by simp
  qed
qed

lemma completion_loop_first_seen:
  "set keys \<subseteq> set (map fst t) \<Longrightarrow>
   completion_loop t p keys seen acc =
     acc @ map (item_for t p)
             (first_seen (filter (\<lambda>s. s \<notin> seen)
                (filter (\<lambda>s. s \<noteq> []) (map (next_segment p) (filter (\<lambda>k. startsWith k p) keys)))))"
proof (induction keys arbitrary: seen acc)
  case Nil
  then show ?case by simp
next
  case (Cons k keys)
  from Cons.prems have keys: "set keys \<subseteq> set (map fst t)" and k: "k \<in> set (map fst t)"
    by simp_all
  note IH = Cons.IH [OF keys]
  show ?case
  proof (cases "startsWith k p")
    case False
    then show ?thesis by (simp add: IH)
  next
    case True
    note seg = suggestionSegment_next_segment [OF True]
    show ?thesis
    proof (cases "next_segment p k = [] \<or> next_segment p k \<in> seen")
      case skip: True
      with True show ?thesis by (auto simp: seg IH)
    next
      case new: False
      have valid: "formsValidPrefix t (potentialFullThemePath p (next_segment p k))"
        using k True by (rule formsValidPrefix_of_key)
      have later: "removeAll (next_segment p k) (filter (\<lambda>s. s \<noteq> [] \<and> s \<notin> seen) xs)
                     = filter (\<lambda>s. s \<noteq> [] \<and> s \<noteq> next_segment p k \<and> s \<notin> seen) xs" for xs
        by (induction xs) auto
      from new True valid show ?thesis
        by (simp add: seg IH Let_def later item_for_def potentialFullThemePath_node_boundary)
    qed
  qed
qed

lemma complete_first_seen:
  "complete p t =
     map (item_for t p)
       (first_seen (filter (\<lambda>s. s \<noteq> []) (map (next_segment p) (matching_keys p t))))"
  by (simp add: complete_def completion_loop_first_seen matching_keys_def)

lemma label_item_for: "label (item_for t p s) = s"
  by (simp add: item_for_def make_item_def)

lemma prefix_append_left:
  "prefix (xs @ ys) zs = (prefix xs zs \<and> prefix ys (drop (length xs) zs))"
  by (auto simp: prefix_def append_eq_conv_conj)

lemma prefix_takeWhile:
  "\<forall>x\<in>set ys. P x \<Longrightarrow> prefix ys (takeWhile P zs) = prefix ys zs"
proof (induction ys arbitrary: zs)
  case Nil
  then show ?case by simp
next
  case (Cons y ys)
  then show ?case by (cases zs) auto
qed

lemma startsWith_node_boundary:
  "startsWith k p =
     (startsWith k (node_boundary p) \<and> prefix (partial_segment p) (next_segment p k))"
proof -
  have "\<forall>x\<in>set (partial_segment p). x \<noteq> CHR ''.''"
    using partial_segment_no_dot [of p] by auto
  then have "prefix (partial_segment p) (next_segment p k)
               = prefix (partial_segment p) (drop (length (node_boundary p)) k)"
    unfolding next_segment_def by (rule prefix_takeWhile)
  moreover have "startsWith k p
      = (prefix (node_boundary p) k \<and> prefix (partial_segment p) (drop (length (node_boundary p)) k))"
    unfolding startsWith_def
    by (subst node_boundary_partial [of p, symmetric]) (rule prefix_append_left)
  ultimately show ?thesis by (simp add: startsWith_def)
qed

subsection \<open>The order in which a table enumerates its keys\<close>

lemma json_object_declared_order:
  "distinct (map fst (acc @ members)) \<Longrightarrow>
   list_all (\<lambda>k. \<not> is_array_index k) (map fst members) \<Longrightarrow>
   foldl (\<lambda>t (k, v). define_property t k v) acc members = acc @ members"
proof (induction members arbitrary: acc)
  case Nil
  then show ?case by simp
next
  case (Cons m members)
  obtain k v where m: "m = (k, v)" by (cases m)
  from Cons.prems m have step: "define_property acc k v = acc @ [(k, v)]"
    by (auto simp: define_property_def)
  from Cons.prems m have "distinct (map fst ((acc @ [(k, v)]) @ members))"
    by auto
  moreover from Cons.prems have "list_all (\<lambda>k. \<not> is_array_index k) (map fst members)"
    by simp
  ultimately have "foldl (\<lambda>t (k, v). define_property t k v) (acc @ [(k, v)]) members
      = (acc @ [(k, v)]) @ members"
    by (rule Cons.IH)
  with step m show ?case by simp
qed

lemma json_object_snoc:
  "json_object (members @ [(k, v)]) = define_property (json_object members) k v"
  by (simp add: json_object_def)

lemma insert_index_keys:
  "is_array_index k \<Longrightarrow> enumeration_order (map fst t) \<Longrightarrow>
   enumeration_order (map fst (insert_index k v t))
   \<and> set (map fst (insert_index k v t)) = insert k (set (map fst t))
   \<and> filter (\<lambda>x. \<not> is_array_index x) (map fst (insert_index k v t))
       = filter (\<lambda>x. \<not> is_array_index x) (map fst t)
   \<and> (k \<notin> set (map fst t) \<and> distinct (map fst t) \<longrightarrow> distinct (map fst (insert_index k v t)))"
proof (induction t)
  case Nil
  then show ?case by (simp add: enumeration_order_def)
next
  case (Cons e es)
  then have tail: "enumeration_order (map fst es)"
    by (simp add: enumeration_order_def)
  note IH = Cons.IH [OF Cons.prems(1) tail]
  show ?case
  proof (cases "is_array_index (fst e) \<and> index_value (fst e) < index_value k")
    case True
    with IH Cons.prems show ?thesis
      by (auto simp: enumeration_order_def)
  next
    case False
    with Cons.prems show ?thesis
      by (fastforce simp: enumeration_order_def)
  qed
qed

lemma define_property_keys:
  assumes "enumeration_order (map fst t)" and "distinct (map fst t)"
  shows "enumeration_order (map fst (define_property t k v))"
    and "distinct (map fst (define_property t k v))"
    and "set (map fst (define_property t k v)) = insert k (set (map fst t))"
    and "filter (\<lambda>x. \<not> is_array_index x) (map fst (define_property t k v))
          = (if is_array_index k \<or> k \<in> set (map fst t)
             then filter (\<lambda>x. \<not> is_array_index x) (map fst t)
             else filter (\<lambda>x. \<not> is_array_index x) (map fst t) @ [k])"
proof -
  consider (old) "k \<in> set (map fst t)"
    | (index) "k \<notin> set (map fst t)" "is_array_index k"
    | (other) "k \<notin> set (map fst t)" "\<not> is_array_index k"
    by blast
  then have "enumeration_order (map fst (define_property t k v))
      \<and> distinct (map fst (define_property t k v))
      \<and> set (map fst (define_property t k v)) = insert k (set (map fst t))
      \<and> filter (\<lambda>x. \<not> is_array_index x) (map fst (define_property t k v))
          = (if is_array_index k \<or> k \<in> set (map fst t)
             then filter (\<lambda>x. \<not> is_array_index x) (map fst t)
             else filter (\<lambda>x. \<not> is_array_index x) (map fst t) @ [k])"
  proof cases
    case old
    then have "map fst (define_property t k v) = map fst t"
      by (simp add: define_property_def update_keys)
    with old assms show ?thesis by auto
  next
    case index
    then have "define_property t k v = insert_index k v t"
      by (simp add: define_property_def)
    with index assms insert_index_keys [OF index(2) assms(1), of v] show ?thesis
      by simp
  next
    case other
    then have "define_property t k v = t @ [(k, v)]"
      by (simp add: define_property_def)
    with other assms show ?thesis
      by (auto simp: enumeration_order_def sorted_wrt_append)
  qed
  then show "enumeration_order (map fst (define_property t k v))"
    and "distinct (map fst (define_property t k v))"
    and "set (map fst (define_property t k v)) = insert k (set (map fst t))"
    and "filter (\<lambda>x. \<not> is_array_index x) (map fst (define_property t k v))
          = (if is_array_index k \<or> k \<in> set (map fst t)
             then filter (\<lambda>x. \<not> is_array_index x) (map fst t)
             else filter (\<lambda>x. \<not> is_array_index x) (map fst t) @ [k])"
    by blast+
qed

lemma first_seen_snoc:
  "first_seen (xs @ [k]) = (if k \<in> set xs then first_seen xs else first_seen xs @ [k])"
  by (induction xs rule: first_seen.induct) auto

lemma json_object_keys:
  "enumeration_order (map fst (json_object members))
   \<and> distinct (map fst (json_object members))
   \<and> set (map fst (json_object members)) = set (map fst members)
   \<and> filter (\<lambda>k. \<not> is_array_index k) (map fst (json_object members))
       = first_seen (filter (\<lambda>k. \<not> is_array_index k) (map fst members))"
proof (induction members rule: rev_induct)
  case Nil
  then show ?case by (simp add: json_object_def enumeration_order_def)
next
  case (snoc m members)
  obtain k v where m: "m = (k, v)" by (cases m)
  from snoc.IH have ordered: "enumeration_order (map fst (json_object members))"
    and dist: "distinct (map fst (json_object members))"
    and keys: "set (map fst (json_object members)) = set (map fst members)"
    and others: "filter (\<lambda>k. \<not> is_array_index k) (map fst (json_object members))
       = first_seen (filter (\<lambda>k. \<not> is_array_index k) (map fst members))"
    by blast+
  note step = define_property_keys [OF ordered dist, of k v]
  have "filter (\<lambda>k. \<not> is_array_index k) (map fst (json_object (members @ [m])))
       = first_seen (filter (\<lambda>k. \<not> is_array_index k) (map fst (members @ [m])))"
    using step(4) keys others by (auto simp: m json_object_snoc first_seen_snoc)
  with step(1,2,3) keys show ?case
    by (simp add: m json_object_snoc)
qed

lemma labels_first_seen:
  "map label (complete p t) =
     first_seen (filter (\<lambda>s. s \<noteq> []) (map (next_segment p) (matching_keys p t)))"
  by (simp add: complete_first_seen label_item_for comp_def)

text \<open>
  C7 (as stated) fails on the theme file \<open>{"b.x": 1, "10": 2, "2.y": 3}\<close>: the table
  parsed from it enumerates the key \<open>10\<close> first, so the suggestions for the empty typed
  path are \<open>10\<close>, \<open>b\<close>, \<open>2\<close>, where the first-seen order of the keys as the file declares
  them is \<open>b\<close>, \<open>10\<close>, \<open>2\<close>.
\<close>

theorem complete_order_not_declaration_order:
  "map label (complete [] (json_object numeric_keys_members)) = [''10'', ''b'', ''2'']
   \<and> first_seen (filter (\<lambda>s. s \<noteq> [])
        (map (next_segment []) (matching_keys [] numeric_keys_members))) = [''b'', ''10'', ''2'']"
proof -
  have table: "json_object numeric_keys_members
      = [(''10'', JNum 2), (''b.x'', JNum 1), (''2.y'', JNum 3)]"
    by (simp add: json_object_def numeric_keys_members_def define_property_def
        is_array_index_def is_digit_def index_value_def)
  show ?thesis
    by (simp only: table)
      (simp add: labels_first_seen matching_keys_def numeric_keys_members_def
        startsWith_def next_segment_def node_boundary_def)
qed

text \<open>
  C7 (as amended). The order of the suggestions is stable and is not alphabetical: it is
  the first-seen order of the segments of the matching keys, the keys taken in the order
  in which the table parsed from the theme file enumerates them (\<open>for ... in\<close>). That
  order is not the declaration order of the file: the keys that are array indices come
  first, in ascending numeric order, then the other keys in the order of their first
  declaration. It is the declaration order when the file declares no key twice and none
  of its keys is an array index. (For a table that has no own key named
  \<open>hasOwnProperty\<close>; the loop calls \<open>themeData.hasOwnProperty\<close>.)
\<close>

theorem complete_order_first_seen:
  "\<not> hasOwnProperty (json_object members) ''hasOwnProperty'' \<Longrightarrow>
   map label (complete typedPath (json_object members)) =
     first_seen (filter (\<lambda>s. s \<noteq> [])
       (map (next_segment typedPath) (matching_keys typedPath (json_object members))))
   \<and> (distinct (map fst members) \<and> list_all (\<lambda>k. \<not> is_array_index k) (map fst members) \<longrightarrow>
        map label (complete typedPath (json_object members)) =
          first_seen (filter (\<lambda>s. s \<noteq> [])
            (map (next_segment typedPath) (matching_keys typedPath members))))
   \<and> enumeration_order (map fst (json_object members))
   \<and> filter (\<lambda>k. \<not> is_array_index k) (map fst (json_object members))
       = first_seen (filter (\<lambda>k. \<not> is_array_index k) (map fst members))
   \<and> set (map fst (json_object members)) = set (map fst members)
   \<and> distinct (map fst (json_object members))
   \<and> map label (complete [] zIndex_first_table) = [''zIndex'', ''breakpoints'']"
proof -
  note order = json_object_keys [of members]
  have "json_object members = members"
    if "distinct (map fst members)" "list_all (\<lambda>k. \<not> is_array_index k) (map fst members)"
    unfolding json_object_def using json_object_declared_order [of "[]" members] that by simp
  moreover have "map label (complete [] zIndex_first_table) = [''zIndex'', ''breakpoints'']"
    by (simp add: labels_first_seen matching_keys_def zIndex_first_table_def startsWith_def
        next_segment_def node_boundary_def)
  ultimately show ?thesis
    using order by (auto simp: labels_first_seen)
qed

theorem complete_order_first_seen_witness:
  "\<not> hasOwnProperty (json_object zIndex_first_table) ''hasOwnProperty''
   \<and> distinct (map fst zIndex_first_table)
   \<and> list_all (\<lambda>k. \<not> is_array_index k) (map fst zIndex_first_table)
   \<and> map label (complete [] (json_object zIndex_first_table)) = [''zIndex'', ''breakpoints'']
   \<and> \<not> hasOwnProperty (json_object numeric_keys_members) ''hasOwnProperty''
   \<and> matching_keys [] (json_object numeric_keys_members) = [''10'', ''b.x'', ''2.y'']
   \<and> map label (complete [] (json_object numeric_keys_members)) = [''10'', ''b'', ''2'']"
proof -
  have table: "json_object zIndex_first_table = zIndex_first_table"
    by (simp add: json_object_def zIndex_first_table_def define_property_def
        is_array_index_def is_digit_def)
  have own: "\<not> hasOwnProperty (json_object zIndex_first_table) ''hasOwnProperty''"
    by (simp only: table) (simp add: hasOwnProperty_def zIndex_first_table_def)
  have keys: "distinct (map fst zIndex_first_table)"
    "list_all (\<lambda>k. \<not> is_array_index k) (map fst zIndex_first_table)"
    by (simp_all add: zIndex_first_table_def is_array_index_def is_digit_def)
  have segments: "first_seen (filter (\<lambda>s. s \<noteq> [])
            (map (next_segment []) (matching_keys [] zIndex_first_table)))
        = [''zIndex'', ''breakpoints'']"
    by (simp add: matching_keys_def zIndex_first_table_def startsWith_def
        next_segment_def node_boundary_def)
  have table': "json_object numeric_keys_members
      = [(''10'', JNum 2), (''b.x'', JNum 1), (''2.y'', JNum 3)]"
    by (simp add: json_object_def numeric_keys_members_def define_property_def
        is_array_index_def is_digit_def index_value_def)
  have own': "\<not> hasOwnProperty (json_object numeric_keys_members) ''hasOwnProperty''"
    by (simp only: table') (simp add: hasOwnProperty_def)
  have keys': "matching_keys [] (json_object numeric_keys_members) = [''10'', ''b.x'', ''2.y'']"
    by (simp only: table') (simp add: matching_keys_def startsWith_def)
  have segments': "first_seen (filter (\<lambda>s. s \<noteq> [])
            (map (next_segment []) [''10'', ''b.x'', ''2.y''])) = [''10'', ''b'', ''2'']"
    by (simp add: next_segment_def node_boundary_def)
  from complete_order_first_seen [OF own, of "[]"] keys
  have "map label (complete [] (json_object zIndex_first_table)) =
          first_seen (filter (\<lambda>s. s \<noteq> [])
            (map (next_segment []) (matching_keys [] zIndex_first_table)))"
    by blast
  then have "map label (complete [] (json_object zIndex_first_table)) = [''zIndex'', ''breakpoints'']"
    by (simp only: segments)
  moreover from complete_order_first_seen [OF own', of "[]"]
  have "map label (complete [] (json_object numeric_keys_members)) =
          first_seen (filter (\<lambda>s. s \<noteq> [])
            (map (next_segment []) (matching_keys [] (json_object numeric_keys_members))))"
    by blast
  then have "map label (complete [] (json_object numeric_keys_members)) = [''10'', ''b'', ''2'']"
    by (simp only: keys' segments')
  ultimately show ?thesis using own keys own' keys' by simp
qed

subsection \<open>A typed path that ends inside a segment\<close>

text \<open>
  C6 (as stated) fails on a table with the keys \<open>palette.primary\<close>, \<open>palette.secondary\<close>
  and \<open>palette.prime\<close>: the typed path \<open>palette.pri\<close>, whose node boundary is \<open>palette.\<close>,
  gets the suggestions \<open>primary\<close> and \<open>prime\<close>, the typed path \<open>palette.\<close> gets
  \<open>primary\<close>, \<open>secondary\<close> and \<open>prime\<close>.
\<close>

theorem complete_mid_segment_differs:
  "node_boundary ''palette.pri'' = ''palette.''
   \<and> map label (complete ''palette.pri'' prime_table) = [''primary'', ''prime'']
   \<and> map label (complete ''palette.'' prime_table) = [''primary'', ''secondary'', ''prime'']"
  by (simp add: labels_first_seen matching_keys_def prime_table_def startsWith_def
      next_segment_def node_boundary_def)

text \<open>
  C6 (as amended). A typed path that ends inside a segment does not get the suggestion
  list of the typed path cut back to its last dot (its node boundary): it gets that list
  restricted to the suggestions whose segment begins with the partial segment typed after
  the last dot, in the same order, each suggestion kept identical in every field. The two
  lists are identical when every suggestion at the node boundary begins with the partial
  segment. (For a table that has no own key named \<open>hasOwnProperty\<close>; the loop calls
  \<open>themeData.hasOwnProperty\<close>.)
\<close>

theorem complete_mid_segment_at_node_boundary:
  "\<not> hasOwnProperty themeData ''hasOwnProperty'' \<Longrightarrow>
   complete typedPath themeData =
     filter (\<lambda>item. prefix (partial_segment typedPath) (label item))
       (complete (node_boundary typedPath) themeData)"
proof -
  let ?part = "partial_segment typedPath"
  let ?next = "next_segment typedPath"
  let ?keys = "map fst themeData"
  have items: "item_for themeData (node_boundary typedPath) = item_for themeData typedPath"
    by (rule ext) (simp add: item_for_def node_boundary_idem)
  have keys: "filter (prefix ?part) (map ?next (filter (\<lambda>k. startsWith k (node_boundary typedPath)) ?keys))
                = map ?next (filter (\<lambda>k. startsWith k typedPath) ?keys)"
    by (simp add: filter_map comp_def startsWith_node_boundary [of _ typedPath] conj_commute)
  have "filter (\<lambda>item. prefix ?part (label item)) (complete (node_boundary typedPath) themeData)
          = map (item_for themeData typedPath)
              (filter (prefix ?part)
                (first_seen (filter (\<lambda>s. s \<noteq> [])
                  (map ?next (filter (\<lambda>k. startsWith k (node_boundary typedPath)) ?keys)))))"
    by (simp add: complete_first_seen matching_keys_def items next_segment_node_boundary
        filter_map comp_def label_item_for)
  also have "\<dots> = map (item_for themeData typedPath)
              (first_seen (filter (\<lambda>s. s \<noteq> [])
                (filter (prefix ?part)
                  (map ?next (filter (\<lambda>k. startsWith k (node_boundary typedPath)) ?keys)))))"
    by (simp add: first_seen_filter [symmetric] conj_commute)
  also have "\<dots> = complete typedPath themeData"
    by (simp only: keys complete_first_seen matching_keys_def)
  finally show ?thesis by simp
qed

theorem complete_mid_segment_at_node_boundary_witness:
  "\<not> hasOwnProperty prime_table ''hasOwnProperty''
   \<and> node_boundary ''palette.pri'' = ''palette.''
   \<and> partial_segment ''palette.pri'' = ''pri''
   \<and> complete ''palette.pri'' prime_table =
       filter (\<lambda>item. prefix ''pri'' (label item)) (complete ''palette.'' prime_table)"
proof -
  have own: "\<not> hasOwnProperty prime_table ''hasOwnProperty''"
    by (simp add: hasOwnProperty_def prime_table_def)
  have boundary: "node_boundary ''palette.pri'' = ''palette.''"
    by (simp add: node_boundary_def)
  have part: "partial_segment ''palette.pri'' = ''pri''"
    by (simp add: partial_segment_def node_boundary_def)
  from complete_mid_segment_at_node_boundary [OF own, of "''palette.pri''"] own boundary part
  show ?thesis by simp
qed

end
